theory Spec2Isabelle
  imports Main "HOL-Library.Sublist"
begin

chapter \<open>The model\<close>

section \<open>Supported-URL check: \<open>ClaudeAdapter.isSupported\<close>\<close>

text \<open>
  \<open>isSupported\<close> reads \<open>window.location.hostname\<close> and \<open>window.location.href\<close>;
  both are inputs of the model.
\<close>

record location =
  hostname :: string
  href :: string

text \<open>
  The four regular expressions of \<open>supportedPatterns\<close> are built from literal characters
  and \<open>.*\<close>; each starts with \<open>^\<close> and only the last one ends with \<open>$\<close>. A pattern is
  its list of atoms and the flag of the end anchor. \<open>.\<close> does not match a line terminator
  (no \<open>s\<close> flag).
\<close>

datatype atom = Ch char | DotStar

record regex =
  atoms :: "atom list"
  anchored_end :: bool

definition lineTerminator :: "char \<Rightarrow> bool" where
  "lineTerminator c = (c = CHR 0x0A \<or> c = CHR 0x0D)"

text \<open>
  \<open>matchHere as e s\<close>: the atoms match a prefix of \<open>s\<close> (all of \<open>s\<close> when \<open>e\<close>, the
  end anchor, is set). Backtracking over \<open>.*\<close> as the engine does.
\<close>

fun matchHere :: "atom list \<Rightarrow> bool \<Rightarrow> string \<Rightarrow> bool" where
  "matchHere [] e s = (if e then s = [] else True)"
| "matchHere (Ch c # as) e [] = False"
| "matchHere (Ch c # as) e (x # xs) = (if c = x then matchHere as e xs else False)"
| "matchHere (DotStar # as) e [] = matchHere as e []"
| "matchHere (DotStar # as) e (x # xs) =
     (if matchHere as e (x # xs) then True
      else if lineTerminator x then False
      else matchHere (DotStar # as) e xs)"

text \<open>\<open>pattern.test(s)\<close> for a pattern that starts with \<open>^\<close> (no \<open>m\<close>, \<open>g\<close> or \<open>y\<close> flag).\<close>

definition regex_test :: "regex \<Rightarrow> string \<Rightarrow> bool" where
  "regex_test p s = matchHere (atoms p) (anchored_end p) s"

definition lit :: "string \<Rightarrow> atom list" where
  "lit s = map Ch s"

text \<open>\<open>String.prototype.includes\<close>: the argument occurs somewhere in the string.\<close>

fun includes_str :: "string \<Rightarrow> string \<Rightarrow> bool" where
  "includes_str [] sub = (sub = [])"
| "includes_str (c # cs) sub = (if prefix sub (c # cs) then True else includes_str cs sub)"

definition hostnames :: "string list" where
  "hostnames = [''claude.ai'']"

definition supportedPatterns :: "regex list" where
  "supportedPatterns =
     [\<lparr>atoms = lit ''https://claude.ai/chat/'' @ [DotStar], anchored_end = False\<rparr>,
      \<lparr>atoms = lit ''https://claude.ai/new'' @ [DotStar], anchored_end = False\<rparr>,
      \<lparr>atoms = lit ''https://claude.ai/project/'' @ [DotStar], anchored_end = False\<rparr>,
      \<lparr>atoms = lit ''https://claude.ai'', anchored_end = True\<rparr>]"

definition isSupported :: "location \<Rightarrow> bool" where
  "isSupported loc =
     (let currentHost = hostname loc;
          currentUrl = href loc;
          isClaudeHost = list_ex (\<lambda>h. includes_str currentHost h) hostnames
      in if \<not> isClaudeHost then False
         else list_ex (\<lambda>p. regex_test p currentUrl) supportedPatterns)"

subsection \<open>The location of a page\<close>

text \<open>
  \<open>window.location\<close> is not a free pair of strings: the browser serialises the URL of the
  page. For a page served over \<open>http\<close> or \<open>https\<close> the URL has a scheme, optional
  credentials, a host, an optional port, a path, an optional query and an optional
  fragment, and its path is never empty: the pathname starts with \<open>/\<close> (the site root
  \<open>https://claude.ai\<close> is reported as \<open>https://claude.ai/\<close>). \<open>path\<close> is what follows that
  first slash. \<open>href\<close> is the scheme, \<open>://\<close>, the credentials before \<open>@\<close>, the host, the port
  after \<open>:\<close>, the pathname, the query after \<open>?\<close> and the fragment after \<open>#\<close>; \<open>hostname\<close>
  is the host without the port.
\<close>

record url =
  scheme :: string
  credentials :: "string option"
  host :: string
  port :: "string option"
  path :: string
  query :: "string option"
  fragment :: "string option"

definition pathname :: "url \<Rightarrow> string" where
  "pathname u = CHR ''/'' # path u"

definition href_of :: "url \<Rightarrow> string" where
  "href_of u =
     scheme u @ ''://''
     @ (case credentials u of None \<Rightarrow> [] | Some c \<Rightarrow> c @ ''@'')
     @ host u
     @ (case port u of None \<Rightarrow> [] | Some n \<Rightarrow> CHR '':'' # n)
     @ pathname u
     @ (case query u of None \<Rightarrow> [] | Some q \<Rightarrow> CHR ''?'' # q)
     @ (case fragment u of None \<Rightarrow> [] | Some f \<Rightarrow> CHR ''#'' # f)"

definition location_of :: "url \<Rightarrow> location" where
  "location_of u = \<lparr>hostname = host u, href = href_of u\<rparr>"

text \<open>The site root, with a query or without.\<close>

definition site_root :: "string option \<Rightarrow> url" where
  "site_root q =
     \<lparr>scheme = ''https'', credentials = None, host = ''claude.ai'', port = None,
      path = [], query = q, fragment = None\<rparr>"

section \<open>The document\<close>

text \<open>
  A node of the document: its \<open>tagName\<close> (upper case, as the DOM reports it; \<open>#text\<close> for a
  text node and \<open>#document\<close> for the root), its attributes, a string (the \<open>value\<close> property
  of a form control, the data of a text node) and its child nodes in order. An element of
  the document is referred to by its path from the root: the child indices to follow.
\<close>

datatype elem = Elem (tagName: string) (attrs: "(string \<times> string) list") (strval: string)
  (kids: "elem list")

type_synonym path = "nat list"

definition getAttribute :: "elem \<Rightarrow> string \<Rightarrow> string option" where
  "getAttribute e k = map_of (attrs e) k"

definition set_strval :: "string \<Rightarrow> elem \<Rightarrow> elem" where
  "set_strval v e = Elem (tagName e) (attrs e) v (kids e)"

definition set_kids :: "elem list \<Rightarrow> elem \<Rightarrow> elem" where
  "set_kids ks e = Elem (tagName e) (attrs e) (strval e) ks"

fun textContent :: "elem \<Rightarrow> string" where
  "textContent (Elem t a v ks) = (if t = ''#text'' then v else concat (map textContent ks))"

fun node_at :: "path \<Rightarrow> elem \<Rightarrow> elem option" where
  "node_at [] e = Some e"
| "node_at (i # p) e = (if i < length (kids e) then node_at p (kids e ! i) else None)"

fun update_at :: "path \<Rightarrow> (elem \<Rightarrow> elem) \<Rightarrow> elem \<Rightarrow> elem" where
  "update_at [] f e = f e"
| "update_at (i # p) f e =
     (if i < length (kids e) then set_kids ((kids e)[i := update_at p f (kids e ! i)]) e else e)"

text \<open>The first node in document order that satisfies \<open>P\<close>, the node itself included.\<close>

fun find_path :: "(elem \<Rightarrow> bool) \<Rightarrow> elem \<Rightarrow> path option"
  and find_kids :: "(elem \<Rightarrow> bool) \<Rightarrow> elem list \<Rightarrow> nat \<Rightarrow> path option" where
  "find_path P (Elem t a v ks) = (if P (Elem t a v ks) then Some [] else find_kids P ks 0)"
| "find_kids P [] i = None"
| "find_kids P (k # ks) i =
     (case find_path P k of Some p \<Rightarrow> Some (i # p) | None \<Rightarrow> find_kids P ks (Suc i))"

subsection \<open>Selectors\<close>

text \<open>
  The selectors of the source are lists (\<open>,\<close>) of compound selectors, each a tag name with
  attribute and class tests.
\<close>

datatype simple = Tag string | AttrEq string string | AttrSub string string | Class string

type_synonym compound = "simple list"
type_synonym selector = "compound list"

text \<open>
  The tokens of a \<open>class\<close> attribute (\<open>classList\<close>, and the class selector): the attribute
  split at ASCII white space, which is tab, line feed, form feed, carriage return and
  space.
\<close>

definition isASCIIWhitespace :: "char \<Rightarrow> bool" where
  "isASCIIWhitespace c = (c \<in> set [CHR 0x09, CHR 0x0A, CHR 0x0C, CHR 0x0D, CHR 0x20])"

fun tokens :: "string \<Rightarrow> string \<Rightarrow> string list" where
  "tokens acc [] = (if acc = [] then [] else [acc])"
| "tokens acc (c # cs) =
     (if isASCIIWhitespace c then (if acc = [] then tokens [] cs else acc # tokens [] cs)
      else tokens (acc @ [c]) cs)"

definition classList :: "elem \<Rightarrow> string list" where
  "classList e = (case getAttribute e ''class'' of None \<Rightarrow> [] | Some c \<Rightarrow> tokens [] c)"

text \<open>
  In an HTML document the value of an attribute selector \<open>[k="v"]\<close> is compared without
  regard to ASCII case for a fixed list of attributes (\<open>type\<close> is one of them), and exactly
  for all others (\<open>contenteditable\<close>, \<open>data-testid\<close>).
\<close>

definition asciiLower :: "char \<Rightarrow> char" where
  "asciiLower c =
     (case map_of (zip ''ABCDEFGHIJKLMNOPQRSTUVWXYZ'' ''abcdefghijklmnopqrstuvwxyz'') c of
        None \<Rightarrow> c
      | Some l \<Rightarrow> l)"

definition caseInsensitiveAttrs :: "string list" where
  "caseInsensitiveAttrs =
     [''accept'', ''accept-charset'', ''align'', ''alink'', ''axis'', ''bgcolor'', ''charset'',
      ''checked'', ''clear'', ''codetype'', ''color'', ''compact'', ''declare'', ''defer'',
      ''dir'', ''direction'', ''disabled'', ''enctype'', ''face'', ''frame'', ''hreflang'',
      ''http-equiv'', ''lang'', ''language'', ''link'', ''media'', ''method'', ''multiple'',
      ''nohref'', ''noresize'', ''noshade'', ''nowrap'', ''readonly'', ''rel'', ''rev'',
      ''rules'', ''scope'', ''scrolling'', ''selected'', ''shape'', ''target'', ''text'',
      ''type'', ''valign'', ''valuetype'', ''vlink'']"

definition attr_value_eq :: "string \<Rightarrow> string \<Rightarrow> string \<Rightarrow> bool" where
  "attr_value_eq k w v =
     (if k \<in> set caseInsensitiveAttrs then map asciiLower w = map asciiLower v else w = v)"

fun matches_simple :: "simple \<Rightarrow> elem \<Rightarrow> bool" where
  "matches_simple (Tag t) e = (tagName e = t)"
| "matches_simple (AttrEq k v) e =
     (case getAttribute e k of None \<Rightarrow> False | Some w \<Rightarrow> attr_value_eq k w v)"
| "matches_simple (AttrSub k v) e =
     (case getAttribute e k of None \<Rightarrow> False | Some w \<Rightarrow> v \<noteq> [] \<and> includes_str w v)"
| "matches_simple (Class c) e = (c \<in> set (classList e))"

definition matches :: "selector \<Rightarrow> elem \<Rightarrow> bool" where
  "matches sel e = list_ex (\<lambda>c. list_all (\<lambda>s. matches_simple s e) c) sel"

text \<open>\<open>document.querySelector\<close> and \<open>document.getElementById\<close> search below the root.\<close>

definition querySelector :: "selector \<Rightarrow> elem \<Rightarrow> path option" where
  "querySelector sel doc = find_kids (matches sel) (kids doc) 0"

definition has_id :: "string \<Rightarrow> elem \<Rightarrow> bool" where
  "has_id i e = (getAttribute e ''id'' = Some i)"

definition getElementById :: "string \<Rightarrow> elem \<Rightarrow> path option" where
  "getElementById i doc = find_kids (has_id i) (kids doc) 0"

text \<open>
  The loop of the adapter over the parts of a selector string split at \<open>", "\<close>: the first
  part that has a match wins, whatever the document order.
\<close>

fun first_match :: "selector list \<Rightarrow> elem \<Rightarrow> path option" where
  "first_match [] doc = None"
| "first_match (s # ss) doc =
     (case querySelector s doc of Some p \<Rightarrow> Some p | None \<Rightarrow> first_match ss doc)"

section \<open>Text insertion\<close>

text \<open>
  The calls made on the target element, in order. \<open>SelectEndOfContents\<close> is the sequence
  \<open>createRange\<close>, \<open>selectNodeContents\<close>, \<open>collapse(false)\<close>, \<open>removeAllRanges\<close>,
  \<open>addRange\<close>; \<open>ExecCommandInsertText s\<close> is \<open>document.execCommand('insertText', false, s)\<close>,
  whose effect on the element is the browser's and is not part of the model.
\<close>

datatype dom_call =
    Focus
  | SetSelectionRange nat nat
  | DispatchEvent string
  | SelectEndOfContents
  | ExecCommandInsertText string

text \<open>What goes out on the event bus: the tool name, and the reason of a failure.\<close>

datatype bus_event =
    ExecutionCompleted string
  | ExecutionFailed string string

record insert_outcome =
  returned :: bool
  document :: elem
  target :: "elem option"
  dom_calls :: "dom_call list"
  emitted :: "bus_event list"

definition separator :: string where
  "separator = [CHR 0x0A, CHR 0x0A]"

text \<open>
  \<open>String.prototype.trim\<close> removes white space and line terminators at both ends; among
  the characters below \<open>U+0100\<close> (the strings of the model) these are tab, line feed,
  vertical tab, form feed, carriage return, space and the no-break space.
\<close>

definition isWhiteSpace :: "char \<Rightarrow> bool" where
  "isWhiteSpace c = (c \<in> set [CHR 0x09, CHR 0x0A, CHR 0x0B, CHR 0x0C, CHR 0x0D, CHR 0x20, CHR 0xA0])"

definition trim :: "string \<Rightarrow> string" where
  "trim s = rev (dropWhile isWhiteSpace (rev (dropWhile isWhiteSpace s)))"

text \<open>
  The \<open>value\<close> property of a textarea. The element keeps the string written to it (its raw
  value, \<open>strval\<close>); reading \<open>value\<close> returns it with the line breaks normalised: a
  carriage return followed by a line feed, and a carriage return alone, are read as one
  line feed. The selection offsets count in the string as read. For the other elements
  with a \<open>value\<close> property the string is read as written.
\<close>

fun normalizeNewlines :: "string \<Rightarrow> string" where
  "normalizeNewlines [] = []"
| "normalizeNewlines [c] = [if c = CHR 0x0D then CHR 0x0A else c]"
| "normalizeNewlines (c # d # cs) =
     (if c = CHR 0x0D \<and> d = CHR 0x0A then CHR 0x0A # normalizeNewlines cs
      else (if c = CHR 0x0D then CHR 0x0A else c) # normalizeNewlines (d # cs))"

definition value_property :: "elem \<Rightarrow> string" where
  "value_property e =
     (if tagName e = ''TEXTAREA'' then normalizeNewlines (strval e) else strval e)"

text \<open>The errors that the code of the model can throw.\<close>

datatype js_error = TypeError | ReferenceError

subsection \<open>\<open>ClaudeAdapter.insertText\<close>\<close>

text \<open>\<open>selectors.CHAT_INPUT.split(', ')\<close>.\<close>

definition CHAT_INPUT :: "selector list" where
  "CHAT_INPUT =
     [[[Tag ''DIV'', AttrEq ''contenteditable'' ''true'', AttrEq ''data-testid'' ''composer-input'']],
      [[Tag ''DIV'', AttrEq ''contenteditable'' ''true'']],
      [[Tag ''TEXTAREA'', AttrSub ''placeholder'' ''Reply'']],
      [[Tag ''TEXTAREA'', AttrSub ''placeholder'' ''Talk'']]]"

text \<open>The body of the \<open>try\<close> block, on the element found. An empty string is falsy.\<close>

definition insertText_into :: "string \<Rightarrow> elem \<Rightarrow> elem \<times> dom_call list" where
  "insertText_into text targetElement =
     (if tagName targetElement = ''TEXTAREA'' then
        (let currentText = value_property targetElement;
             newContent = (if currentText \<noteq> [] then currentText @ separator @ text else text);
             textarea = set_strval newContent targetElement;
             n = length (value_property textarea)
         in (textarea,
             [Focus, SetSelectionRange n n, DispatchEvent ''input'', DispatchEvent ''change'']))
      else if getAttribute targetElement ''contenteditable'' = Some ''true'' then
        (let currentText = textContent targetElement
         in (targetElement,
             [Focus, SelectEndOfContents]
             @ (if currentText \<noteq> [] \<and> trim currentText \<noteq> []
                then [ExecCommandInsertText separator] else [])
             @ [ExecCommandInsertText text, DispatchEvent ''input'', DispatchEvent ''change'']))
      else (targetElement, [Focus]))"

text \<open>
  \<open>insertText(text, options)\<close>. A target element supplied by the caller is taken by value
  (the document is left as it is); an element found by the selectors is updated in place.
\<close>

definition insertText :: "string \<Rightarrow> elem option \<Rightarrow> elem \<Rightarrow> insert_outcome" where
  "insertText text options_targetElement doc =
     (case options_targetElement of
        Some el \<Rightarrow>
          (let (el', calls) = insertText_into text el
           in \<lparr>returned = True, document = doc, target = Some el', dom_calls = calls,
               emitted = [ExecutionCompleted ''insertText'']\<rparr>)
      | None \<Rightarrow>
          (case first_match CHAT_INPUT doc of
             None \<Rightarrow>
               \<lparr>returned = False, document = doc, target = None, dom_calls = [],
                emitted = [ExecutionFailed ''insertText'' ''Chat input element not found'']\<rparr>
           | Some p \<Rightarrow>
               (case node_at p doc of
                  None \<Rightarrow>
                    \<lparr>returned = False, document = doc, target = None, dom_calls = [],
                     emitted = [ExecutionFailed ''insertText'' ''Chat input element not found'']\<rparr>
                | Some el \<Rightarrow>
                    (let (el', calls) = insertText_into text el
                     in \<lparr>returned = True, document = update_at p (\<lambda>_. el') doc,
                         target = Some el', dom_calls = calls,
                         emitted = [ExecutionCompleted ''insertText'']\<rparr>))))"

subsection \<open>The chat input handler: \<open>findChatInputElement\<close>, \<open>insertTextToChatInput\<close>\<close>

text \<open>
  \<open>findChatInputElement\<close>, as the handler's source stands. The declarations of
  \<open>contentEditableDiv\<close> and \<open>textarea\<close> are part of the comment lines before their \<open>if\<close>, so
  the two fallback queries do not run: when the first query finds nothing, the next
  statement reads \<open>contentEditableDiv\<close>, which is not declared anywhere, and throws a
  \<open>ReferenceError\<close>. The function therefore returns the element of the first query or
  throws. The module variable \<open>lastFoundInputElement\<close> is set to the element found.
\<close>

definition composer_input :: selector where
  "composer_input =
     [[Tag ''DIV'', AttrEq ''contenteditable'' ''true'', AttrEq ''data-testid'' ''composer-input'']]"

definition findChatInputElement :: "elem \<Rightarrow> js_error + path option" where
  "findChatInputElement doc =
     (case querySelector composer_input doc of
        Some claudeInput \<Rightarrow> Inr (Some claudeInput)
      | None \<Rightarrow> Inl ReferenceError)"

text \<open>\<open>'value' in chatInput\<close>: the element interfaces that have a \<open>value\<close> property.\<close>

definition hasValueProperty :: "elem \<Rightarrow> bool" where
  "hasValueProperty e =
     (tagName e \<in> set [''INPUT'', ''TEXTAREA'', ''SELECT'', ''BUTTON'', ''OPTION'', ''OUTPUT'',
                        ''DATA'', ''METER'', ''PROGRESS'', ''LI'', ''PARAM''])"

text \<open>
  The body of the \<open>try\<close> block of \<open>insertTextToChatInput\<close>, on the element found. (As the
  locator stands, that element is always a \<open>div\<close> with \<open>contenteditable="true"\<close>, so only
  the second branch is ever taken.)
\<close>

definition insertTextToChatInput_into :: "string \<Rightarrow> elem \<Rightarrow> elem \<times> dom_call list" where
  "insertTextToChatInput_into text chatInput =
     (if tagName chatInput = ''TEXTAREA'' then
        (let currentText = value_property chatInput;
             formattedText = (if currentText \<noteq> [] then currentText @ separator @ text else text);
             textarea = set_strval formattedText chatInput;
             n = length (value_property textarea)
         in (textarea, [SetSelectionRange n n, DispatchEvent ''input'', Focus]))
      else if getAttribute chatInput ''contenteditable'' = Some ''true'' then
        (let currentText = textContent chatInput
         in if currentText \<noteq> [] \<and> trim currentText \<noteq> [] then
              (let withTextNode =
                     (if kids chatInput = [] then set_kids [Elem ''#text'' [] [] []] chatInput
                      else if tagName (last (kids chatInput)) = ''#text'' then chatInput
                      else set_kids (kids chatInput @ [Elem ''#text'' [] [] []]) chatInput)
               in (withTextNode,
                   [Focus, SelectEndOfContents, ExecCommandInsertText separator,
                    ExecCommandInsertText text, DispatchEvent ''input'']))
            else (chatInput, [Focus, ExecCommandInsertText text, DispatchEvent ''input'']))
      else if hasValueProperty chatInput then
        (let currentValue = value_property chatInput
         in (set_strval (if currentValue \<noteq> [] then currentValue @ separator @ text else text)
               chatInput,
             [DispatchEvent ''input'', Focus]))
      else
        (let currentText = textContent chatInput
         in (set_kids [Elem ''#text'' []
                         (if currentText \<noteq> [] then currentText @ separator @ text else text) []]
               chatInput,
             [DispatchEvent ''input'', Focus])))"

record handler_outcome =
  h_returned :: bool
  h_document :: elem
  h_dom_calls :: "dom_call list"
  lastFoundInputElement :: "path option"

text \<open>
  \<open>insertTextToChatInput(text)\<close>: the error of \<open>findChatInputElement\<close> is thrown inside the
  \<open>try\<close> block, and the \<open>catch\<close> returns false.
\<close>

definition insertTextToChatInput :: "string \<Rightarrow> path option \<Rightarrow> elem \<Rightarrow> handler_outcome" where
  "insertTextToChatInput text lastFound doc =
     (case findChatInputElement doc of
        Inl err \<Rightarrow>
          \<lparr>h_returned = False, h_document = doc, h_dom_calls = [],
           lastFoundInputElement = lastFound\<rparr>
      | Inr None \<Rightarrow>
          \<lparr>h_returned = False, h_document = doc, h_dom_calls = [],
           lastFoundInputElement = lastFound\<rparr>
      | Inr (Some p) \<Rightarrow>
          (case node_at p doc of
             None \<Rightarrow>
               \<lparr>h_returned = False, h_document = doc, h_dom_calls = [],
                lastFoundInputElement = Some p\<rparr>
           | Some el \<Rightarrow>
               (let (el', calls) = insertTextToChatInput_into text el
                in \<lparr>h_returned = True, h_document = update_at p (\<lambda>_. el') doc,
                    h_dom_calls = calls, lastFoundInputElement = Some p\<rparr>)))"

subsection \<open>Example pages\<close>

text \<open>A page whose body holds a form with the given composer element and a submit button.\<close>

definition page_with :: "elem \<Rightarrow> elem" where
  "page_with composer =
     Elem ''#document'' [] []
       [Elem ''HTML'' [] []
          [Elem ''HEAD'' [] [] [],
           Elem ''BODY'' [] []
             [Elem ''FORM'' [] [] [composer, Elem ''BUTTON'' [(''type'', ''submit'')] [] []]]]]"

definition a_textarea :: "string \<Rightarrow> elem" where
  "a_textarea v = Elem ''TEXTAREA'' [(''placeholder'', ''Reply to Claude'')] v []"

definition an_editable :: "string \<Rightarrow> elem" where
  "an_editable t =
     Elem ''DIV'' [(''contenteditable'', ''true''), (''data-testid'', ''composer-input'')] []
       [Elem ''P'' [] [] [Elem ''#text'' [] t []]]"

section \<open>The submit trigger: \<open>submitChatInput\<close>\<close>

text \<open>
  The page changes between the ticks of the poll, and the function asks it the same
  questions at every tick. A snapshot holds the answers at one moment: the five queries
  of \<open>findSubmitButton\<close>, and whether \<open>chatInput.closest('form')\<close> finds a form.
\<close>

record snapshot =
  q_send :: "elem option"
  q_submit :: "elem option"
  q_svg_button :: "elem option"
  q_form_submit :: "elem option"
  q_fieldset_last :: "elem option"
  q_form :: bool

text \<open>
  \<open>page k\<close> is the snapshot at the call (\<open>k = 0\<close>) and at the \<open>k\<close>-th tick of the
  interval; \<open>after_click b\<close> is the button \<open>b\<close> once the page's click handlers have run.
\<close>

record environment =
  page :: "nat \<Rightarrow> snapshot"
  after_click :: "elem \<Rightarrow> elem"

text \<open>What the function does, in order. The promise takes the value of the first \<open>Resolve\<close>.\<close>

datatype action =
    Click
  | Resolve bool
  | ClearInterval
  | DispatchSubmit
  | FocusInput
  | KeyDown
  | KeyPress
  | KeyUp

definition first_some :: "'a option list \<Rightarrow> 'a option" where
  "first_some xs = (case List.find (\<lambda>x. x \<noteq> None) xs of None \<Rightarrow> None | Some x \<Rightarrow> x)"

definition findSubmitButton :: "snapshot \<Rightarrow> elem option" where
  "findSubmitButton s =
     first_some [q_send s, q_submit s, q_svg_button s, q_form_submit s, q_fieldset_last s]"

text \<open>The \<open>disabled\<close> property of a button reflects its \<open>disabled\<close> attribute.\<close>

definition disabled_property :: "elem \<Rightarrow> bool" where
  "disabled_property b = (getAttribute b ''disabled'' \<noteq> None)"

definition isDisabled :: "elem \<Rightarrow> bool" where
  "isDisabled button =
     (if disabled_property button then True
      else if getAttribute button ''disabled'' \<noteq> None then True
      else if getAttribute button ''aria-disabled'' = Some ''true'' then True
      else ''disabled'' \<in> set (classList button))"

definition tryClickingButton :: "snapshot \<Rightarrow> action list" where
  "tryClickingButton s =
     (case findSubmitButton s of
        None \<Rightarrow> [Resolve False]
      | Some button \<Rightarrow> if isDisabled button then [] else [Click, Resolve True])"

text \<open>The alternative methods: the form's submit event, or else the Enter key.\<close>

definition alternative_methods :: "snapshot \<Rightarrow> action list" where
  "alternative_methods s =
     (if q_form s then [DispatchSubmit, Resolve True]
      else [FocusInput, KeyDown, KeyPress, KeyUp, Resolve True])"

text \<open>The interval callback, from the \<open>k\<close>-th tick on, until it clears itself.\<close>

function poll :: "(nat \<Rightarrow> snapshot) \<Rightarrow> int \<Rightarrow> int \<Rightarrow> nat \<Rightarrow> action list" where
  "poll pg maxWaitTime elapsedTime k =
     (if elapsedTime + 200 \<ge> maxWaitTime
      then tryClickingButton (pg k) @ [ClearInterval] @ alternative_methods (pg k)
      else tryClickingButton (pg k) @ poll pg maxWaitTime (elapsedTime + 200) (Suc k))"
  by pat_completeness auto
termination
  by (relation "measure (\<lambda>(pg, m, e, k). nat (m - e))") auto

text \<open>
  \<open>submitChatInput(maxWaitTime)\<close>; \<open>chatInput\<close> is
  \<open>lastFoundInputElement || findChatInputElement()\<close>. An error of \<open>findChatInputElement\<close>
  is thrown inside the \<open>try\<close> block of the executor, whose \<open>catch\<close> resolves false.
\<close>

definition submitChatInput :: "int \<Rightarrow> path option \<Rightarrow> elem \<Rightarrow> environment \<Rightarrow> action list" where
  "submitChatInput maxWaitTime lastFound doc env =
     (case (case lastFound of
              Some p \<Rightarrow> Inr (Some p)
            | None \<Rightarrow> findChatInputElement doc) of
        Inl err \<Rightarrow> [Resolve False]
      | Inr None \<Rightarrow> [Resolve False]
      | Inr (Some chatInput) \<Rightarrow>
           (case findSubmitButton (page env 0) of
              None \<Rightarrow> alternative_methods (page env 0)
            | Some submitButton \<Rightarrow>
                (let firstTry = tryClickingButton (page env 0);
                     button_now = (if Click \<in> set firstTry then after_click env submitButton
                                   else submitButton)
                 in if disabled_property button_now
                    then firstTry @ poll (page env) maxWaitTime 0 1
                    else firstTry @ [ClearInterval])))"

definition clicks :: "action list \<Rightarrow> nat" where
  "clicks tr = length (filter (\<lambda>a. a = Click) tr)"

text \<open>The value of the promise: \<open>None\<close> when \<open>resolve\<close> is never called.\<close>

fun promise :: "action list \<Rightarrow> bool option" where
  "promise [] = None"
| "promise (Resolve b # tr) = Some b"
| "promise (a # tr) = promise tr"

subsection \<open>Example pages for the submit trigger\<close>

definition snapshot_with_submit :: "elem \<Rightarrow> snapshot" where
  "snapshot_with_submit b =
     \<lparr>q_send = None, q_submit = Some b, q_svg_button = None, q_form_submit = Some b,
      q_fieldset_last = None, q_form = True\<rparr>"

text \<open>The submit button is disabled at the call and enabled from the first tick on.\<close>

definition page_enabled_later :: environment where
  "page_enabled_later =
     \<lparr>page = (\<lambda>k. if k = 0
                    then snapshot_with_submit
                           (Elem ''BUTTON'' [(''type'', ''submit''), (''disabled'', '''')] [] [])
                    else snapshot_with_submit (Elem ''BUTTON'' [(''type'', ''submit'')] [] [])),
      after_click = (\<lambda>b. b)\<rparr>"

text \<open>
  The submit button carries \<open>aria-disabled="true"\<close> at the call (and no \<open>disabled\<close>
  attribute), and is enabled from the first tick on.
\<close>

definition page_aria_disabled_first :: environment where
  "page_aria_disabled_first =
     \<lparr>page = (\<lambda>k. if k = 0
                    then snapshot_with_submit
                           (Elem ''BUTTON'' [(''type'', ''submit''), (''aria-disabled'', ''true'')] [] [])
                    else snapshot_with_submit (Elem ''BUTTON'' [(''type'', ''submit'')] [] [])),
      after_click = (\<lambda>b. b)\<rparr>"

section \<open>File attachment: \<open>ClaudeAdapter.attachFile\<close>\<close>

record file_obj =
  file_name :: string
  file_size :: nat
  file_type :: string

text \<open>
  The element a call is made on: an element of the document, or the input element the
  caller passed in \<open>options.inputElement\<close>.
\<close>

datatype receiver = InDocument path | SuppliedInput

datatype attach_call =
    SetFiles receiver file_obj
  | DispatchOn receiver string

record attach_outcome =
  a_returned :: bool
  a_calls :: "attach_call list"
  a_emitted :: "bus_event list"

text \<open>\<open>selectors.DROP_ZONE.split(', ')\<close> and \<open>selectors.FILE_INPUT\<close>.\<close>

definition DROP_ZONE :: "selector list" where
  "DROP_ZONE =
     [[[AttrEq ''data-testid'' ''composer-input'']],
      [[Class ''composer-container'']],
      [[Class ''input-container'']]]"

definition FILE_INPUT :: selector where
  "FILE_INPUT = [[Tag ''INPUT'', AttrEq ''type'' ''file'']]"

definition supportsFileUpload :: "elem \<Rightarrow> bool" where
  "supportsFileUpload doc =
     (if first_match DROP_ZONE doc \<noteq> None then True
      else querySelector FILE_INPUT doc \<noteq> None)"

definition simulateFileDrop :: "elem \<Rightarrow> bool \<times> attach_call list" where
  "simulateFileDrop doc =
     (case first_match DROP_ZONE doc of
        None \<Rightarrow> (False, [])
      | Some dropZone \<Rightarrow>
          (True, [DispatchOn (InDocument dropZone) ''dragenter'',
                  DispatchOn (InDocument dropZone) ''dragover'',
                  DispatchOn (InDocument dropZone) ''drop'']))"

text \<open>
  \<open>attachFile(file, options)\<close>. The parameter may be \<open>null\<close> at run time (the function tests
  \<open>!file\<close>). The first statement, outside the \<open>try\<close> block, reads \<open>file.name\<close>: on \<open>null\<close> it
  throws, and the promise of the \<open>async\<close> function rejects. The calls inside the \<open>try\<close>
  block are taken not to throw.
\<close>

definition attachFile :: "file_obj option \<Rightarrow> elem option \<Rightarrow> elem \<Rightarrow> js_error + attach_outcome" where
  "attachFile file options_inputElement doc =
     (case file of
        None \<Rightarrow> Inl TypeError
      | Some f \<Rightarrow>
          Inr
            (if file_size f = 0 then
               \<lparr>a_returned = False, a_calls = [],
                a_emitted = [ExecutionFailed ''attachFile'' ''Invalid file: file is empty or null'']\<rparr>
             else if \<not> supportsFileUpload doc then
               \<lparr>a_returned = False, a_calls = [],
                a_emitted = [ExecutionFailed ''attachFile''
                               ''File upload not supported on current page'']\<rparr>
             else
               (case (case options_inputElement of
                        Some el \<Rightarrow> Some SuppliedInput
                      | None \<Rightarrow> map_option InDocument (querySelector FILE_INPUT doc)) of
                  Some fileInput \<Rightarrow>
                    \<lparr>a_returned = True,
                     a_calls = [SetFiles fileInput f, DispatchOn fileInput ''change''],
                     a_emitted = [ExecutionCompleted ''attachFile'']\<rparr>
                | None \<Rightarrow>
                    (let (dropSuccess, calls) = simulateFileDrop doc
                     in if dropSuccess then
                          \<lparr>a_returned = True, a_calls = calls,
                           a_emitted = [ExecutionCompleted ''attachFile'']\<rparr>
                        else
                          \<lparr>a_returned = False, a_calls = calls,
                           a_emitted = [ExecutionFailed ''attachFile''
                                          ''All file attachment methods failed'']\<rparr>))))"

subsection \<open>Example inputs for file attachment\<close>

definition a_file :: file_obj where
  "a_file = \<lparr>file_name = ''notes.txt'', file_size = 12, file_type = ''text/plain''\<rparr>"

definition a_file_input :: elem where
  "a_file_input = Elem ''INPUT'' [(''type'', ''file'')] [] []"

section \<open>The adapter's lifecycle\<close>

subsection \<open>Changing the document\<close>

text \<open>
  \<open>map_kids_at p g\<close> replaces the child list \<open>ks\<close> of the node at \<open>p\<close> by \<open>g ks\<close>. The three
  mutations of the adapter are of this kind: \<open>appendChild\<close>, \<open>insertBefore\<close> (here by
  position) and the removal of a node from its parent.
\<close>

definition map_kids_at :: "path \<Rightarrow> (elem list \<Rightarrow> elem list) \<Rightarrow> elem \<Rightarrow> elem" where
  "map_kids_at p g doc = update_at p (\<lambda>e. set_kids (g (kids e)) e) doc"

definition appendChild :: "path \<Rightarrow> elem \<Rightarrow> elem \<Rightarrow> elem" where
  "appendChild parent new doc = map_kids_at parent (\<lambda>ks. ks @ [new]) doc"

definition insertChildAt :: "path \<Rightarrow> nat \<Rightarrow> elem \<Rightarrow> elem \<Rightarrow> elem" where
  "insertChildAt parent k new doc = map_kids_at parent (\<lambda>ks. take k ks @ new # drop k ks) doc"

definition removeNode :: "path \<Rightarrow> elem \<Rightarrow> elem" where
  "removeNode p doc =
     (if p = [] then doc
      else map_kids_at (butlast p) (\<lambda>ks. take (last p) ks @ drop (Suc (last p)) ks) doc)"

text \<open>The number of nodes that satisfy \<open>P\<close>: in a subtree, and below the root of a document.\<close>

fun count_if :: "(elem \<Rightarrow> bool) \<Rightarrow> elem \<Rightarrow> nat" where
  "count_if P (Elem t a v ks) =
     (if P (Elem t a v ks) then 1 else 0) + sum_list (map (count_if P) ks)"

definition count_below :: "(elem \<Rightarrow> bool) \<Rightarrow> elem \<Rightarrow> nat" where
  "count_below P doc = sum_list (map (count_if P) (kids doc))"

text \<open>The last node in document order that satisfies \<open>P\<close>.\<close>

fun find_last :: "(elem \<Rightarrow> bool) \<Rightarrow> elem \<Rightarrow> path option"
  and find_last_kids :: "(elem \<Rightarrow> bool) \<Rightarrow> elem list \<Rightarrow> nat \<Rightarrow> path option" where
  "find_last P (Elem t a v ks) =
     (case find_last_kids P ks 0 of
        Some p \<Rightarrow> Some p
      | None \<Rightarrow> if P (Elem t a v ks) then Some [] else None)"
| "find_last_kids P [] i = None"
| "find_last_kids P (k # ks) i =
     (case find_last_kids P ks (Suc i) of
        Some p \<Rightarrow> Some p
      | None \<Rightarrow> (case find_last P k of Some p \<Rightarrow> Some (i # p) | None \<Rightarrow> None))"

fun index_from :: "('a \<Rightarrow> bool) \<Rightarrow> 'a list \<Rightarrow> nat \<Rightarrow> nat option" where
  "index_from P [] i = None"
| "index_from P (x # xs) i = (if P x then Some i else index_from P xs (Suc i))"

text \<open>\<open>document.head\<close> and \<open>document.body\<close>: children of the \<open>html\<close> element, if there are.\<close>

definition child_of_html :: "string \<Rightarrow> elem \<Rightarrow> path option" where
  "child_of_html t doc =
     (case index_from (\<lambda>e. tagName e = ''HTML'') (kids doc) 0 of
        None \<Rightarrow> None
      | Some i \<Rightarrow>
          (case index_from (\<lambda>e. tagName e = t) (kids (kids doc ! i)) 0 of
             None \<Rightarrow> None
           | Some j \<Rightarrow> Some [i, j]))"

definition document_head :: "elem \<Rightarrow> path option" where
  "document_head doc = child_of_html ''HEAD'' doc"

definition document_body :: "elem \<Rightarrow> path option" where
  "document_body doc = child_of_html ''BODY'' doc"

subsection \<open>The adapter and its surroundings\<close>

datatype status = Uninitialized | Initializing | Active | Inactive | Disabled

text \<open>
  The functions handed to \<open>setInterval\<close> and \<open>setTimeout\<close>, and the continuation of the
  dynamic imports in \<open>renderMCPPopover\<close>. \<open>CheckReady n\<close> is \<open>checkReady\<close> of
  \<open>waitForPageReady\<close> with \<open>attempts = n\<close> so far (each call of \<open>waitForPageReady\<close> has its
  own counter); \<open>AttemptInjection attempt maxRetries\<close> is \<open>attemptInjection(attempt)\<close>.
\<close>

datatype callback =
    UrlCheck
  | CheckReady nat
  | AttemptInjection nat nat
  | PageChangedSetup
  | PageChangedCheck
  | RenderPopover

datatype timer_kind = Interval | Timeout | Continuation

record timer =
  t_handle :: nat
  t_kind :: timer_kind
  t_delay :: nat
  t_callback :: callback

record adapter =
  currentStatus :: status
  lastUrl :: string
  urlCheckInterval :: "nat option"
  mcpPopoverContainer :: "elem option"
  mcpPopoverRoot :: bool
  mutationObserver :: "bool option"
  popoverCheckInterval :: "nat option"
  storeEventListenersSetup :: bool
  domObserversSetup :: bool
  uiIntegrationSetup :: bool
  claudeStylesInjected :: bool

text \<open>
  The world the adapter runs in: the adapter (\<open>this\<close>), the document, \<open>window.location\<close>, the
  pending timers and continuations, the events emitted on the bus, the handlers registered
  on it, and whether \<open>window.activeSidebarManager\<close> is set. \<open>mutationObserver\<close> is \<open>None\<close> for
  \<open>null\<close>, \<open>Some True\<close> for an observer that observes \<open>document.body\<close>, \<open>Some False\<close> for
  one that was created and observes nothing.
\<close>

record world =
  self :: adapter
  dom :: elem
  window_location :: location
  timers :: "timer list"
  next_handle :: nat
  bus :: "string list"
  bus_handlers :: "string list"
  activeSidebarManager :: bool

definition popover_id :: string where
  "popover_id = ''mcp-popover-container''"

definition style_id :: string where
  "style_id = ''mcp-claude-button-styles''"

text \<open>The text of \<open>getClaudeButtonStyles()\<close>, cut short: only its presence matters here.\<close>

definition getClaudeButtonStyles :: string where
  "getClaudeButtonStyles = ''.mcp-claude-button-base { display: inline-flex; }''"

definition styleElement :: elem where
  "styleElement =
     Elem ''STYLE'' [(''id'', style_id)] [] [Elem ''#text'' [] getClaudeButtonStyles []]"

definition reactContainer :: elem where
  "reactContainer =
     Elem ''DIV'' [(''id'', popover_id), (''style'', ''display: inline-block; margin: 0px 4px;'')]
       [] []"

definition set_timer :: "timer_kind \<Rightarrow> nat \<Rightarrow> callback \<Rightarrow> world \<Rightarrow> world" where
  "set_timer k d cb w =
     w\<lparr>timers := timers w @ [\<lparr>t_handle = next_handle w, t_kind = k, t_delay = d, t_callback = cb\<rparr>],
       next_handle := Suc (next_handle w)\<rparr>"

definition clear_timer :: "nat \<Rightarrow> world \<Rightarrow> world" where
  "clear_timer h w = w\<lparr>timers := filter (\<lambda>t. t_handle t \<noteq> h) (timers w)\<rparr>"

definition emit :: "string \<Rightarrow> world \<Rightarrow> world" where
  "emit e w = w\<lparr>bus := bus w @ [e]\<rparr>"

subsection \<open>The base class\<close>

text \<open>
  Modelled from the spec: \<open>BaseAdapterPlugin\<close> (\<open>base.adapter.ts\<close>, not among the sources).
  Its \<open>initialize\<close>, \<open>activate\<close>, \<open>deactivate\<close> and \<open>cleanup\<close> are taken to do what the
  state machine of the specification says: they move \<open>currentStatus\<close> to \<open>initializing\<close>,
  \<open>active\<close>, \<open>inactive\<close> and back to \<open>uninitialized\<close>.
\<close>

definition super_initialize :: "world \<Rightarrow> world" where
  "super_initialize w = w\<lparr>self := (self w)\<lparr>currentStatus := Initializing\<rparr>\<rparr>"

text \<open>Modelled from the spec: \<open>BaseAdapterPlugin.activate\<close> leaves the status \<open>active\<close>.\<close>

definition super_activate :: "world \<Rightarrow> world" where
  "super_activate w = w\<lparr>self := (self w)\<lparr>currentStatus := Active\<rparr>\<rparr>"

text \<open>Modelled from the spec: \<open>BaseAdapterPlugin.deactivate\<close> leaves the status \<open>inactive\<close>.\<close>

definition super_deactivate :: "world \<Rightarrow> world" where
  "super_deactivate w = w\<lparr>self := (self w)\<lparr>currentStatus := Inactive\<rparr>\<rparr>"

text \<open>Modelled from the spec: \<open>BaseAdapterPlugin.cleanup\<close> leaves the status \<open>uninitialized\<close>.\<close>

definition super_cleanup :: "world \<Rightarrow> world" where
  "super_cleanup w = w\<lparr>self := (self w)\<lparr>currentStatus := Uninitialized\<rparr>\<rparr>"

subsection \<open>The adapter's methods\<close>

definition injectClaudeButtonStyles :: "world \<Rightarrow> world" where
  "injectClaudeButtonStyles w =
     (if claudeStylesInjected (self w) then w
      else
        (let doc1 = (case getElementById style_id (dom w) of
                       Some existingStyles \<Rightarrow> removeNode existingStyles (dom w)
                     | None \<Rightarrow> dom w)
         in case document_head doc1 of
              None \<Rightarrow> w\<lparr>dom := doc1\<rparr>
            | Some head \<Rightarrow>
                w\<lparr>dom := appendChild head styleElement doc1,
                  self := (self w)\<lparr>claudeStylesInjected := True\<rparr>\<rparr>))"

text \<open>
  In \<open>injectClaudeButtonStyles\<close>, \<open>document.head.appendChild\<close> throws when there is no head;
  the \<open>catch\<close> logs it, and the flag stays false.
\<close>

definition setupUrlTracking :: "world \<Rightarrow> world" where
  "setupUrlTracking w =
     (if urlCheckInterval (self w) = None
      then (let w1 = set_timer Interval 1000 UrlCheck w
            in w1\<lparr>self := (self w1)\<lparr>urlCheckInterval := Some (next_handle w)\<rparr>\<rparr>)
      else w)"

definition setupStoreEventListeners :: "world \<Rightarrow> world" where
  "setupStoreEventListeners w =
     (if storeEventListenersSetup (self w) then w
      else w\<lparr>bus_handlers := bus_handlers w @ [''tool:execution-completed'', ''ui:sidebar-toggle''],
             self := (self w)\<lparr>storeEventListenersSetup := True\<rparr>\<rparr>)"

text \<open>
  \<open>setupDOMObservers\<close>: \<open>observe(document.body, ...)\<close> throws a \<open>TypeError\<close> when there is no
  body, after the observer has been stored and before the flag is set; nothing catches it.
\<close>

definition setupDOMObservers :: "world \<Rightarrow> js_error option \<times> world" where
  "setupDOMObservers w =
     (if domObserversSetup (self w) then (None, w)
      else
        (case document_body (dom w) of
           None \<Rightarrow> (Some TypeError, w\<lparr>self := (self w)\<lparr>mutationObserver := Some False\<rparr>\<rparr>)
         | Some body \<Rightarrow>
             (None, w\<lparr>self := (self w)\<lparr>mutationObserver := Some True,
                                       domObserversSetup := True\<rparr>\<rparr>)))"

record insertion_point =
  container :: path
  insertAfter :: "path option"

definition is_button :: "elem \<Rightarrow> bool" where
  "is_button e = (tagName e = ''BUTTON'')"

text \<open>\<open>buttons[0]\<close> and \<open>buttons[buttons.length - 1]\<close> of \<open>container.querySelectorAll('button')\<close>.\<close>

definition first_button_in :: "path \<Rightarrow> elem \<Rightarrow> path option" where
  "first_button_in c doc =
     (case node_at c doc of
        None \<Rightarrow> None
      | Some ce \<Rightarrow> map_option (\<lambda>r. c @ r) (find_kids is_button (kids ce) 0))"

definition last_button_in :: "path \<Rightarrow> elem \<Rightarrow> path option" where
  "last_button_in c doc =
     (case node_at c doc of
        None \<Rightarrow> None
      | Some ce \<Rightarrow> map_option (\<lambda>r. c @ r) (find_last_kids is_button (kids ce) 0))"

definition fallbackSelectors :: "selector list" where
  "fallbackSelectors =
     [[[AttrEq ''data-testid'' ''composer'']], [[Class ''composer-parent'']], [[Class ''input-area'']]]"

text \<open>
  \<open>findButtonInsertionPoint\<close>. (The declaration of \<open>composerControls\<close> stands at the end of
  a comment line in the source; it is read as the statement it is.)
\<close>

definition findButtonInsertionPoint :: "elem \<Rightarrow> insertion_point option" where
  "findButtonInsertionPoint doc =
     (case querySelector [[Tag ''FIELDSET'']] doc of
        Some fieldset \<Rightarrow>
          Some \<lparr>container = fieldset, insertAfter = first_button_in fieldset doc\<rparr>
      | None \<Rightarrow>
          (case querySelector [[Class ''composer-controls''],
                               [AttrEq ''data-testid'' ''composer-footer'']] doc of
             Some composerControls \<Rightarrow>
               Some \<lparr>container = composerControls,
                     insertAfter = first_button_in composerControls doc\<rparr>
           | None \<Rightarrow>
               (case first_match fallbackSelectors doc of
                  Some c \<Rightarrow> Some \<lparr>container = c, insertAfter = last_button_in c doc\<rparr>
                | None \<Rightarrow> None)))"

text \<open>
  \<open>renderMCPPopover\<close> checks that the container is connected and starts the dynamic
  imports; their continuation (\<open>render_when_imported\<close>) checks again and creates the React
  root. The container is taken to be connected when the document holds an element with
  the popover's id.
\<close>

definition renderMCPPopover :: "world \<Rightarrow> world" where
  "renderMCPPopover w =
     (if getElementById popover_id (dom w) = None then w
      else set_timer Continuation 0 RenderPopover w)"

definition render_when_imported :: "world \<Rightarrow> world" where
  "render_when_imported w =
     (if getElementById popover_id (dom w) = None then w
      else w\<lparr>self := (self w)\<lparr>mcpPopoverRoot := True\<rparr>\<rparr>)"

definition injectMCPPopover :: "insertion_point \<Rightarrow> world \<Rightarrow> world" where
  "injectMCPPopover insertionPoint w =
     (if getElementById popover_id (dom w) \<noteq> None then w
      else
        (let c = container insertionPoint;
             doc' = (case insertAfter insertionPoint of
                       Some a \<Rightarrow>
                         if a \<noteq> [] \<and> butlast a = c
                         then insertChildAt c (Suc (last a)) reactContainer (dom w)
                         else appendChild c reactContainer (dom w)
                     | None \<Rightarrow> appendChild c reactContainer (dom w))
         in renderMCPPopover
              (w\<lparr>dom := doc',
                 self := (self w)\<lparr>mcpPopoverContainer := Some reactContainer\<rparr>\<rparr>)))"

definition attemptInjection :: "nat \<Rightarrow> nat \<Rightarrow> world \<Rightarrow> world" where
  "attemptInjection attempt maxRetries w =
     (if getElementById popover_id (dom w) \<noteq> None then w
      else
        (case findButtonInsertionPoint (dom w) of
           Some insertionPoint \<Rightarrow> injectMCPPopover insertionPoint w
         | None \<Rightarrow>
             if attempt < maxRetries
             then set_timer Timeout 1000 (AttemptInjection (attempt + 1) maxRetries) w
             else w))"

definition injectMCPPopoverWithRetry :: "nat \<Rightarrow> world \<Rightarrow> world" where
  "injectMCPPopoverWithRetry maxRetries w = attemptInjection 1 maxRetries w"

text \<open>
  \<open>checkReady\<close> of \<open>waitForPageReady\<close>, with the \<open>then\<close> of \<open>setupUIIntegration\<close> run when
  the promise resolves (and its \<open>catch\<close>, which only logs, when it rejects).
\<close>

definition checkReady :: "nat \<Rightarrow> world \<Rightarrow> world" where
  "checkReady n w =
     (let attempts = n + 1
      in case findButtonInsertionPoint (dom w) of
           Some insertionPoint \<Rightarrow> injectMCPPopoverWithRetry 5 w
         | None \<Rightarrow>
             if attempts \<ge> 10 then w
             else set_timer Timeout 500 (CheckReady attempts) w)"

definition waitForPageReady :: "world \<Rightarrow> world" where
  "waitForPageReady w = set_timer Timeout 100 (CheckReady 0) w"

definition setupUIIntegration :: "world \<Rightarrow> world" where
  "setupUIIntegration w = waitForPageReady (w\<lparr>self := (self w)\<lparr>uiIntegrationSetup := True\<rparr>\<rparr>)"

definition cleanupDOMObservers :: "world \<Rightarrow> world" where
  "cleanupDOMObservers w = w\<lparr>self := (self w)\<lparr>mutationObserver := None\<rparr>\<rparr>"

text \<open>
  \<open>cleanupUIIntegration\<close>: an element that \<open>getElementById\<close> finds is connected and has a
  parent, so it is removed from it.
\<close>

definition cleanupUIIntegration :: "world \<Rightarrow> world" where
  "cleanupUIIntegration w =
     (let doc' = (case getElementById popover_id (dom w) of
                    Some popoverContainer \<Rightarrow> removeNode popoverContainer (dom w)
                  | None \<Rightarrow> dom w)
      in w\<lparr>dom := doc',
           self := (self w)\<lparr>mcpPopoverRoot := False, mcpPopoverContainer := None\<rparr>\<rparr>)"

definition ensureMCPPopoverConnection :: "world \<Rightarrow> world" where
  "ensureMCPPopoverConnection w =
     (if getElementById popover_id (dom w) = None then injectMCPPopoverWithRetry 3 w else w)"

definition checkAndRestoreSidebar :: "world \<Rightarrow> world" where
  "checkAndRestoreSidebar w =
     (if \<not> activeSidebarManager w then w else ensureMCPPopoverConnection w)"

definition onPageChanged :: "string \<Rightarrow> world \<Rightarrow> world" where
  "onPageChanged url w =
     (let w1 = w\<lparr>self := (self w)\<lparr>lastUrl := url\<rparr>\<rparr>;
          w2 = (if isSupported (window_location w1)
                then set_timer Timeout 1500 PageChangedCheck
                       (set_timer Timeout 1000 PageChangedSetup (injectClaudeButtonStyles w1))
                else w1)
      in emit ''app:site-changed'' w2)"

definition onHostChanged :: "world \<Rightarrow> world" where
  "onHostChanged w =
     (if \<not> isSupported (window_location w) then emit ''adapter:deactivated'' w
      else setupUIIntegration w)"

text \<open>The callback of the URL poll.\<close>

definition urlCheck :: "world \<Rightarrow> world" where
  "urlCheck w =
     (let currentUrl = href (window_location w)
      in if currentUrl \<noteq> lastUrl (self w)
         then (let w1 = onPageChanged currentUrl w
               in w1\<lparr>self := (self w1)\<lparr>lastUrl := currentUrl\<rparr>\<rparr>)
         else w)"

text \<open>The callback of the mutation observer, called with \<open>childList\<close> records.\<close>

definition observerCallback :: "world \<Rightarrow> world" where
  "observerCallback w =
     (if mutationObserver (self w) \<noteq> Some True then w
      else if getElementById popover_id (dom w) \<noteq> None then w
      else
        (case findButtonInsertionPoint (dom w) of
           Some insertionPoint \<Rightarrow> setupUIIntegration w
         | None \<Rightarrow> w))"

definition initialize :: "world \<Rightarrow> world" where
  "initialize w =
     (if currentStatus (self w) = Initializing \<or> currentStatus (self w) = Active then w
      else
        (let w1 = super_initialize w;
             w2 = w1\<lparr>self := (self w1)\<lparr>lastUrl := href (window_location w1)\<rparr>\<rparr>
         in setupStoreEventListeners (setupUrlTracking w2)))"

definition activate :: "world \<Rightarrow> js_error option \<times> world" where
  "activate w =
     (if currentStatus (self w) = Active then (None, w)
      else
        (case setupDOMObservers (injectClaudeButtonStyles (super_activate w)) of
           (Some err, w1) \<Rightarrow> (Some err, w1)
         | (None, w1) \<Rightarrow> (None, emit ''adapter:activated'' (setupUIIntegration w1))))"

definition deactivate :: "world \<Rightarrow> world" where
  "deactivate w =
     (if currentStatus (self w) = Inactive \<or> currentStatus (self w) = Disabled then w
      else
        (let w1 = cleanupDOMObservers (cleanupUIIntegration (super_deactivate w))
         in emit ''adapter:deactivated''
              (w1\<lparr>self := (self w1)\<lparr>storeEventListenersSetup := False,
                                      domObserversSetup := False,
                                      uiIntegrationSetup := False\<rparr>\<rparr>)))"

definition cleanup :: "world \<Rightarrow> world" where
  "cleanup w =
     (let w1 = super_cleanup w;
          w2 = (case urlCheckInterval (self w1) of
                  Some h \<Rightarrow> (clear_timer h w1)\<lparr>self := (self w1)\<lparr>urlCheckInterval := None\<rparr>\<rparr>
                | None \<Rightarrow> w1);
          w3 = (case popoverCheckInterval (self w2) of
                  Some h \<Rightarrow> (clear_timer h w2)\<lparr>self := (self w2)\<lparr>popoverCheckInterval := None\<rparr>\<rparr>
                | None \<Rightarrow> w2);
          w4 = cleanupDOMObservers (cleanupUIIntegration w3);
          w5 = (case getElementById style_id (dom w4) of
                  Some styleEl \<Rightarrow>
                    w4\<lparr>dom := removeNode styleEl (dom w4),
                       self := (self w4)\<lparr>claudeStylesInjected := False\<rparr>\<rparr>
                | None \<Rightarrow> w4)
      in w5\<lparr>self := (self w5)\<lparr>storeEventListenersSetup := False,
                               domObserversSetup := False,
                               uiIntegrationSetup := False,
                               claudeStylesInjected := False\<rparr>\<rparr>)"

subsection \<open>The event loop\<close>

definition run_callback :: "callback \<Rightarrow> world \<Rightarrow> world" where
  "run_callback cb w =
     (case cb of
        UrlCheck \<Rightarrow> urlCheck w
      | CheckReady n \<Rightarrow> checkReady n w
      | AttemptInjection attempt maxRetries \<Rightarrow> attemptInjection attempt maxRetries w
      | PageChangedSetup \<Rightarrow> setupUIIntegration w
      | PageChangedCheck \<Rightarrow> checkAndRestoreSidebar w
      | RenderPopover \<Rightarrow> render_when_imported w)"

text \<open>
  The timer (or continuation) with handle \<open>h\<close> comes due: a timeout is spent, an interval
  stays. Nothing happens when no such timer is pending.
\<close>

definition fire :: "nat \<Rightarrow> world \<Rightarrow> world" where
  "fire h w =
     (case List.find (\<lambda>t. t_handle t = h) (timers w) of
        None \<Rightarrow> w
      | Some t \<Rightarrow>
          run_callback (t_callback t) (if t_kind t = Interval then w else clear_timer h w))"

text \<open>
  What can happen to an adapter: a call of one of its lifecycle methods or hooks by the
  plugin host, a timer coming due, the mutation observer reporting, and the page
  navigating to another URL.
\<close>

datatype step =
    Initialize
  | Activate
  | Deactivate
  | Cleanup
  | Fire nat
  | ObserverCallback
  | InjectManually
  | HostChanged
  | Navigate location

definition apply_step :: "step \<Rightarrow> world \<Rightarrow> world" where
  "apply_step s w =
     (case s of
        Initialize \<Rightarrow> initialize w
      | Activate \<Rightarrow> snd (activate w)
      | Deactivate \<Rightarrow> deactivate w
      | Cleanup \<Rightarrow> cleanup w
      | Fire h \<Rightarrow> fire h w
      | ObserverCallback \<Rightarrow> observerCallback w
      | InjectManually \<Rightarrow> injectMCPPopoverWithRetry 5 w
      | HostChanged \<Rightarrow> onHostChanged w
      | Navigate l \<Rightarrow> w\<lparr>window_location := l\<rparr>)"

fun run :: "step list \<Rightarrow> world \<Rightarrow> world" where
  "run [] w = w"
| "run (s # ss) w = run ss (apply_step s w)"

text \<open>The timers proper: what \<open>setInterval\<close> and \<open>setTimeout\<close> have pending.\<close>

definition pending_timers :: "world \<Rightarrow> timer list" where
  "pending_timers w = filter (\<lambda>t. t_kind t \<noteq> Continuation) (timers w)"

subsection \<open>Example worlds\<close>

text \<open>
  A new instance, in the state the constructor leaves it in (its status \<open>uninitialized\<close>,
  as the specification has it for the base class), on a page at \<open>https://claude.ai/new\<close>.
\<close>

definition new_adapter :: adapter where
  "new_adapter =
     \<lparr>currentStatus = Uninitialized, lastUrl = [], urlCheckInterval = None,
      mcpPopoverContainer = None, mcpPopoverRoot = False, mutationObserver = None,
      popoverCheckInterval = None, storeEventListenersSetup = False,
      domObserversSetup = False, uiIntegrationSetup = False, claudeStylesInjected = False\<rparr>"

definition new_world :: "elem \<Rightarrow> world" where
  "new_world doc =
     \<lparr>self = new_adapter, dom = doc,
      window_location = \<lparr>hostname = ''claude.ai'', href = ''https://claude.ai/new''\<rparr>,
      timers = [], next_handle = 1, bus = [], bus_handlers = [],
      activeSidebarManager = False\<rparr>"

text \<open>A chat page: the composer is a fieldset with an attach button, the input and a send button.\<close>

definition chat_page :: elem where
  "chat_page =
     Elem ''#document'' [] []
       [Elem ''HTML'' [] []
          [Elem ''HEAD'' [] [] [],
           Elem ''BODY'' [] []
             [Elem ''MAIN'' [] []
                [Elem ''FIELDSET'' [] []
                   [Elem ''BUTTON'' [(''aria-label'', ''Attach'')] [] [],
                    an_editable [],
                    Elem ''BUTTON'' [(''aria-label'', ''Send message'')] [] []]]]]]"

subsection \<open>What the lifecycle keeps invariant\<close>

definition popover_count :: "world \<Rightarrow> nat" where
  "popover_count w = count_below (has_id popover_id) (dom w)"

text \<open>An element that \<open>findButtonInsertionPoint\<close> may choose as container.\<close>

definition is_insertion_container :: "elem \<Rightarrow> bool" where
  "is_insertion_container e =
     (if matches [[Tag ''FIELDSET'']] e then True
      else if matches [[Class ''composer-controls''], [AttrEq ''data-testid'' ''composer-footer'']] e
      then True
      else list_ex (\<lambda>s. matches s e) fallbackSelectors)"

definition mount_related :: "elem \<Rightarrow> bool" where
  "mount_related e = (if has_id popover_id e then True else is_insertion_container e)"

text \<open>
  No element that carries the id of the adapter's style sheet has a popover container or
  an insertion container in its subtree. This is so in any page without an element of that
  id, and the style element the adapter adds keeps it so.
\<close>

fun styles_apart :: "elem \<Rightarrow> bool" where
  "styles_apart (Elem t a v ks) =
     (if has_id style_id (Elem t a v ks) \<and> count_if mount_related (Elem t a v ks) \<noteq> 0
      then False
      else list_all styles_apart ks)"

text \<open>
  The instance is the one that mounts and unmounts the popover container: at most one is
  in the document, and the handle is null exactly when none is; and the style sheet's id
  is kept apart as above.
\<close>

definition handle_in_step :: "world \<Rightarrow> bool" where
  "handle_in_step w =
     (if styles_apart (dom w) \<and> popover_count w \<le> 1
      then (mcpPopoverContainer (self w) = None) = (popover_count w = 0)
      else False)"


text \<open>
  Two worlds agree on what the mount attempts leave alone; and a function on worlds is
  \<open>gentle\<close> when it leaves those alone, keeps the handle in step, never makes a second
  popover container, and does not touch the document once a popover container is there.
\<close>

definition same_frame :: "world \<Rightarrow> world \<Rightarrow> bool" where
  "same_frame w w' =
     (window_location w' = window_location w \<and>
      activeSidebarManager w' = activeSidebarManager w \<and>
      currentStatus (self w') = currentStatus (self w) \<and>
      lastUrl (self w') = lastUrl (self w) \<and>
      mutationObserver (self w') = mutationObserver (self w))"

definition gentle_at :: "(world \<Rightarrow> world) \<Rightarrow> world \<Rightarrow> bool" where
  "gentle_at f w =
     (same_frame w (f w) \<and>
      (handle_in_step w \<longrightarrow> handle_in_step (f w)) \<and>
      (popover_count w \<le> 1 \<longrightarrow> popover_count (f w) \<le> 1) \<and>
      (getElementById popover_id (dom w) \<noteq> None \<longrightarrow> dom (f w) = dom w))"

chapter \<open>Properties\<close>

section \<open>Paths in the document\<close>

lemma find_path_sound:
  "find_path P e = Some p \<Longrightarrow> \<exists>x. node_at p e = Some x \<and> P x"
  "find_kids P ks i = Some q \<Longrightarrow>
      \<exists>j r x. q = (i + j) # r \<and> j < length ks \<and> node_at r (ks ! j) = Some x \<and> P x"
proof (induction P e and P ks i arbitrary: p and q rule: find_path_find_kids.induct)
  case (1 P t a v ks)
  show ?case
  proof (cases "P (Elem t a v ks)")
    case True
    with 1(2) show ?thesis by auto
  next
    case False
    with 1(2) have f: "find_kids P ks 0 = Some p" by simp
    from 1(1)[OF False f] obtain j r x where
      "p = j # r" "j < length ks" "node_at r (ks ! j) = Some x" "P x" by auto
    then show ?thesis by simp
  qed
next
  case (2 P i)
  then show ?case by simp
next
  case (3 P k ks i)
  show ?case
  proof (cases "find_path P k")
    case None
    with 3(3) have "find_kids P ks (Suc i) = Some q" by simp
    from 3(2)[OF None this] obtain j r x where
      "q = (Suc i + j) # r" "j < length ks" "node_at r (ks ! j) = Some x" "P x" by auto
    then have "q = (i + Suc j) # r \<and> Suc j < length (k # ks) \<and>
      node_at r ((k # ks) ! Suc j) = Some x \<and> P x" by simp
    then show ?thesis by blast
  next
    case (Some p')
    with 3(3) have q: "q = i # p'" by simp
    from 3(1)[OF Some] obtain x where "node_at p' k = Some x" "P x" by auto
    with q have "q = (i + 0) # p' \<and> 0 < length (k # ks) \<and>
      node_at p' ((k # ks) ! 0) = Some x \<and> P x" by simp
    then show ?thesis by blast
  qed
qed

lemma find_kids_node:
  assumes "find_kids P (kids doc) 0 = Some p"
  shows "\<exists>x. node_at p doc = Some x \<and> P x"
proof -
  from find_path_sound(2)[OF assms] obtain j r x where
    "p = j # r" "j < length (kids doc)" "node_at r (kids doc ! j) = Some x" "P x" by auto
  then show ?thesis by simp
qed

lemma querySelector_node:
  "querySelector sel doc = Some p \<Longrightarrow> \<exists>x. node_at p doc = Some x \<and> matches sel x"
  unfolding querySelector_def by (rule find_kids_node)

lemma node_at_update_at:
  "node_at p e = Some x \<Longrightarrow> node_at p (update_at p f e) = Some (f x)"
proof (induction p arbitrary: e)
  case Nil
  then show ?case by simp
next
  case (Cons i p)
  then show ?case by (auto simp: set_kids_def split: if_splits)
qed

subsection \<open>Attribute selectors\<close>

lemma attr_value_eq_exact:
  "k \<notin> set caseInsensitiveAttrs \<Longrightarrow> attr_value_eq k w v = (w = v)"
  by (simp add: attr_value_eq_def)

lemma attr_value_eq_refl: "attr_value_eq k v v"
  by (simp add: attr_value_eq_def)

lemma exact_attrs:
  "''contenteditable'' \<notin> set caseInsensitiveAttrs"
  "''data-testid'' \<notin> set caseInsensitiveAttrs"
  by (simp_all add: caseInsensitiveAttrs_def)

section \<open>Counting nodes under changes of the document\<close>

lemma count_if_set_kids:
  assumes "\<And>e ks. P (set_kids ks e) = P e"
  shows "count_if P (set_kids ks e) = (if P e then 1 else 0) + sum_list (map (count_if P) ks)"
proof -
  have "count_if P (set_kids ks e) =
      (if P (set_kids ks e) then 1 else 0) + sum_list (map (count_if P) ks)"
    by (simp add: set_kids_def)
  with assms show ?thesis by simp
qed

lemma count_if_kids:
  "count_if P e = (if P e then 1 else 0) + sum_list (map (count_if P) (kids e))"
  by (cases e) simp

lemma count_if_below: "count_if P doc = (if P doc then 1 else 0) + count_below P doc"
  by (simp add: count_below_def count_if_kids[of P doc])

lemma nth_le_sum_list: "i < length (ns :: nat list) \<Longrightarrow> ns ! i \<le> sum_list ns"
  by (rule elem_le_sum_list)

lemma sum_list_map_update:
  assumes "i < length ks"
  shows "sum_list (map f (ks[i := k'])) + f (ks ! i) = sum_list (map f ks) + (f k' :: nat)"
proof -
  have l: "i < length (map f ks)" using assms by simp
  have "map f (ks[i := k']) = (map f ks)[i := f k']" by (simp add: map_update)
  then have "sum_list (map f (ks[i := k'])) = sum_list (map f ks) + f k' - (map f ks) ! i"
    using l by (simp add: sum_list_update)
  moreover have "(map f ks) ! i \<le> sum_list (map f ks)" using l by (rule nth_le_sum_list)
  moreover have "(map f ks) ! i = f (ks ! i)" using assms by simp
  ultimately show ?thesis by simp
qed

text \<open>
  A change of the child list at a node moves the count of the whole tree by as much as
  it moves the count of that child list.
\<close>

lemma count_if_map_kids_at:
  assumes ins: "\<And>e ks. P (set_kids ks e) = P e"
    and "node_at p e = Some x"
  shows "count_if P (map_kids_at p g e) + sum_list (map (count_if P) (kids x)) =
         count_if P e + sum_list (map (count_if P) (g (kids x)))"
  using assms(2)
proof (induction p arbitrary: e)
  case Nil
  then have "x = e" by simp
  then show ?case
    by (simp add: map_kids_at_def count_if_set_kids[of P, OF ins] count_if_kids[of P e])
next
  case (Cons i q)
  from Cons.prems have i: "i < length (kids e)" and n: "node_at q (kids e ! i) = Some x"
    by (auto split: if_splits)
  let ?k' = "map_kids_at q g (kids e ! i)"
  have ih: "count_if P ?k' + sum_list (map (count_if P) (kids x)) =
      count_if P (kids e ! i) + sum_list (map (count_if P) (g (kids x)))"
    by (rule Cons.IH[OF n])
  have u: "map_kids_at (i # q) g e = set_kids ((kids e)[i := ?k']) e"
    using i by (simp add: map_kids_at_def)
  have s: "sum_list (map (count_if P) ((kids e)[i := ?k'])) + count_if P (kids e ! i) =
      sum_list (map (count_if P) (kids e)) + count_if P ?k'"
    by (rule sum_list_map_update[OF i])
  have "count_if P (map_kids_at (i # q) g e) =
      (if P e then 1 else 0) + sum_list (map (count_if P) ((kids e)[i := ?k']))"
    by (simp only: u count_if_set_kids[of P, OF ins])
  with s ih count_if_kids[of P e] show ?case by linarith
qed

lemma map_kids_at_root:
  assumes "\<And>e ks. P (set_kids ks e) = P e"
  shows "P (map_kids_at p g e) = P e"
proof (cases p)
  case Nil
  then show ?thesis by (simp add: map_kids_at_def assms)
next
  case (Cons i q)
  then show ?thesis by (simp add: map_kids_at_def assms)
qed

lemma count_below_map_kids_at:
  assumes ins: "\<And>e ks. P (set_kids ks e) = P e"
    and "node_at p doc = Some x"
  shows "count_below P (map_kids_at p g doc) + sum_list (map (count_if P) (kids x)) =
         count_below P doc + sum_list (map (count_if P) (g (kids x)))"
proof -
  note c = count_if_map_kids_at[of P, OF ins assms(2), of g]
  have r: "P (map_kids_at p g doc) = P doc" by (rule map_kids_at_root[of P, OF ins])
  from c r count_if_below[of P doc] count_if_below[of P "map_kids_at p g doc"]
  show ?thesis by (cases "P doc") simp_all
qed

lemma has_id_set_kids: "has_id i (set_kids ks e) = has_id i e"
  by (simp add: has_id_def getAttribute_def set_kids_def)

lemma node_at_append:
  "node_at (p @ q) e = (case node_at p e of None \<Rightarrow> None | Some y \<Rightarrow> node_at q y)"
  by (induction p arbitrary: e) auto

lemma node_at_parent:
  assumes "node_at p e = Some x" and "p \<noteq> []"
  shows "\<exists>y. node_at (butlast p) e = Some y \<and> last p < length (kids y) \<and> kids y ! last p = x"
proof -
  from assms(2) have p: "p = butlast p @ [last p]" by simp
  from assms(1) have "node_at (butlast p @ [last p]) e = Some x" using p by simp
  then show ?thesis
    by (auto simp: node_at_append split: option.splits if_splits)
qed

lemma count_below_appendChild:
  assumes "\<And>e ks. P (set_kids ks e) = P e" and "node_at p doc = Some x"
  shows "count_below P (appendChild p n doc) = count_below P doc + count_if P n"
  using count_below_map_kids_at[of P, OF assms, of "\<lambda>ks. ks @ [n]"]
  by (simp add: appendChild_def)

lemma count_below_insertChildAt:
  assumes "\<And>e ks. P (set_kids ks e) = P e" and "node_at p doc = Some x"
  shows "count_below P (insertChildAt p k n doc) = count_below P doc + count_if P n"
proof -
  have a: "sum_list (map (count_if P) (take k (kids x))) +
      sum_list (map (count_if P) (drop k (kids x))) = sum_list (map (count_if P) (kids x))"
    by (metis append_take_drop_id map_append sum_list_append)
  have "sum_list (map (count_if P) (take k (kids x) @ n # drop k (kids x))) =
      sum_list (map (count_if P) (kids x)) + count_if P n"
    using a by simp
  with count_below_map_kids_at[of P, OF assms, of "\<lambda>ks. take k ks @ n # drop k ks"]
  show ?thesis by (simp add: insertChildAt_def)
qed

lemma sum_list_without_nth:
  assumes "i < length ks"
  shows "sum_list (map f (take i ks @ drop (Suc i) ks)) + f (ks ! i) = (sum_list (map f ks) :: nat)"
proof -
  have "ks = take i ks @ ks ! i # drop (Suc i) ks" using assms by (rule id_take_nth_drop)
  then have "sum_list (map f ks) = sum_list (map f (take i ks @ ks ! i # drop (Suc i) ks))"
    by simp
  then show ?thesis by simp
qed

lemma count_below_removeNode:
  assumes ins: "\<And>e ks. P (set_kids ks e) = P e"
    and "node_at p doc = Some x" and "p \<noteq> []"
  shows "count_below P (removeNode p doc) + count_if P x = count_below P doc"
proof -
  from node_at_parent[OF assms(2,3)] obtain y where
    y: "node_at (butlast p) doc = Some y" "last p < length (kids y)" "kids y ! last p = x"
    by blast
  note c = count_below_map_kids_at[of P, OF ins y(1),
      of "\<lambda>ks. take (last p) ks @ drop (Suc (last p)) ks"]
  note s = sum_list_without_nth[OF y(2), of "count_if P"]
  from c s y(3) assms(3) show ?thesis by (simp add: removeNode_def)
qed

lemma find_none_iff_count:
  "(find_path P e = None) = (count_if P e = 0)"
  "(find_kids P ks i = None) = (sum_list (map (count_if P) ks) = 0)"
proof (induction P e and P ks i rule: find_path_find_kids.induct)
  case (1 P t a v ks)
  then show ?case by simp
next
  case (2 P i)
  then show ?case by simp
next
  case (3 P k ks i)
  then show ?case by (cases "find_path P k") auto
qed

lemma getElementById_none_iff:
  "(getElementById i doc = None) = (count_below (has_id i) doc = 0)"
  by (simp add: getElementById_def count_below_def find_none_iff_count(2))

lemma getElementById_node:
  assumes "getElementById i doc = Some p"
  shows "p \<noteq> [] \<and> (\<exists>x. node_at p doc = Some x \<and> has_id i x)"
proof -
  from assms have f: "find_kids (has_id i) (kids doc) 0 = Some p"
    by (simp add: getElementById_def)
  from find_path_sound(2)[OF f] have "p \<noteq> []" by auto
  with find_kids_node[OF f] show ?thesis by simp
qed

lemma querySelector_nonempty: "querySelector sel doc = Some p \<Longrightarrow> p \<noteq> []"
  unfolding querySelector_def using find_path_sound(2) by fastforce

section \<open>The supported-URL check\<close>

subsection \<open>What the matcher computes\<close>

lemma matchHere_DotStar_open: "matchHere [DotStar] False s"
  by (induction s) auto

lemma matchHere_lit_open: "matchHere (lit l @ [DotStar]) False s = prefix l s"
proof (induction l arbitrary: s)
  case Nil
  then show ?case by (simp add: lit_def matchHere_DotStar_open)
next
  case (Cons c l)
  then show ?case by (cases s) (auto simp: lit_def)
qed

lemma matchHere_lit_closed: "matchHere (lit l) True s = (s = l)"
proof (induction l arbitrary: s)
  case Nil
  then show ?case by (simp add: lit_def)
next
  case (Cons c l)
  then show ?case by (cases s) (auto simp: lit_def)
qed

lemma includes_str_iff: "includes_str s sub = (\<exists>pre suf. s = pre @ sub @ suf)"
proof (induction s)
  case Nil
  then show ?case by auto
next
  case (Cons c cs)
  show ?case
  proof (cases "prefix sub (c # cs)")
    case True
    then obtain suf where "c # cs = sub @ suf" by (auto simp: prefix_def)
    then have "c # cs = [] @ sub @ suf" by simp
    with True show ?thesis by (metis includes_str.simps(2))
  next
    case False
    have "(\<exists>pre suf. c # cs = pre @ sub @ suf) = (\<exists>pre suf. cs = pre @ sub @ suf)"
    proof
      assume "\<exists>pre suf. c # cs = pre @ sub @ suf"
      then obtain pre suf where e: "c # cs = pre @ sub @ suf" by blast
      show "\<exists>pre suf. cs = pre @ sub @ suf"
      proof (cases pre)
        case Nil
        with e have "prefix sub (c # cs)" by (simp add: prefix_def)
        with False show ?thesis by simp
      next
        case (Cons a pre')
        with e have "cs = pre' @ sub @ suf" by simp
        then show ?thesis by blast
      qed
    next
      assume "\<exists>pre suf. cs = pre @ sub @ suf"
      then obtain pre suf where "cs = pre @ sub @ suf" by blast
      then have "c # cs = (c # pre) @ sub @ suf" by simp
      then show "\<exists>pre suf. c # cs = pre @ sub @ suf" by blast
    qed
    with False Cons show ?thesis by simp
  qed
qed

lemma isSupported_char:
  "isSupported loc =
     (includes_str (hostname loc) ''claude.ai'' \<and>
      (prefix ''https://claude.ai/chat/'' (href loc) \<or>
       prefix ''https://claude.ai/new'' (href loc) \<or>
       prefix ''https://claude.ai/project/'' (href loc) \<or>
       href loc = ''https://claude.ai''))"
  unfolding isSupported_def Let_def hostnames_def supportedPatterns_def regex_test_def
  by (simp only: list_ex_Nil_iff list_ex_Cons_iff regex.simps matchHere_lit_open matchHere_lit_closed) auto

lemma prefix_before_tail:
  assumes "t = [] \<or> hd t \<notin> set p"
  shows "prefix p (base @ t) = prefix p base"
proof
  assume "prefix p (base @ t)"
  then consider "prefix p base" | us where "p = base @ us" "prefix us t"
    by (auto simp: prefix_append)
  then show "prefix p base"
  proof cases
    case 1
    then show ?thesis .
  next
    case 2
    show ?thesis
    proof (cases us)
      case Nil
      with 2 show ?thesis by simp
    next
      case (Cons c us')
      with 2 obtain t' where "t = c # t'" by (auto simp: prefix_def)
      with assms have "c \<notin> set p" by simp
      with 2 Cons show ?thesis by simp
    qed
  qed
next
  assume "prefix p base"
  then show "prefix p (base @ t)" by (rule prefix_prefix)
qed

subsection \<open>The location as the browser reports it\<close>

text \<open>
  Whether a literal without \<open>?\<close> and \<open>#\<close> is a prefix of \<open>href\<close> is decided before the query
  starts.
\<close>

lemma prefix_href_query:
  assumes "CHR ''?'' \<notin> set p" and "CHR ''#'' \<notin> set p"
  shows "prefix p (href_of (u\<lparr>query := q\<rparr>)) =
         prefix p (scheme u @ ''://''
                   @ (case credentials u of None \<Rightarrow> [] | Some c \<Rightarrow> c @ ''@'') @ host u
                   @ (case port u of None \<Rightarrow> [] | Some n \<Rightarrow> CHR '':'' # n) @ pathname u)"
proof -
  let ?b = "scheme u @ ''://''
            @ (case credentials u of None \<Rightarrow> [] | Some c \<Rightarrow> c @ ''@'') @ host u
            @ (case port u of None \<Rightarrow> [] | Some n \<Rightarrow> CHR '':'' # n) @ pathname u"
  let ?t = "(case q of None \<Rightarrow> [] | Some s \<Rightarrow> CHR ''?'' # s)
            @ (case fragment u of None \<Rightarrow> [] | Some f \<Rightarrow> CHR ''#'' # f)"
  have h: "href_of (u\<lparr>query := q\<rparr>) = ?b @ ?t"
    by (simp add: href_of_def pathname_def)
  have "?t = [] \<or> hd ?t \<notin> set p"
    using assms by (cases q; cases "fragment u") simp_all
  then have "prefix p (?b @ ?t) = prefix p ?b" by (rule prefix_before_tail)
  with h show ?thesis by simp
qed

text \<open>The serialised URL has three slashes at least; the root pattern matches none such.\<close>

lemma href_of_not_root: "href_of u \<noteq> ''https://claude.ai''"
proof
  assume "href_of u = ''https://claude.ai''"
  then have "length (filter (\<lambda>c. c = CHR ''/'') (href_of u)) =
             length (filter (\<lambda>c. c = CHR ''/'') ''https://claude.ai'')"
    by simp
  moreover have "3 \<le> length (filter (\<lambda>c. c = CHR ''/'') (href_of u))"
    by (simp add: href_of_def pathname_def)
  moreover have "length (filter (\<lambda>c. c = CHR ''/'') ''https://claude.ai'') = 2"
    by simp
  ultimately show False by simp
qed

lemma isSupported_location_of:
  "isSupported (location_of u) =
     (includes_str (host u) ''claude.ai'' \<and>
      (prefix ''https://claude.ai/chat/'' (href_of u) \<or>
       prefix ''https://claude.ai/new'' (href_of u) \<or>
       prefix ''https://claude.ai/project/'' (href_of u)))"
  by (simp add: isSupported_char location_of_def href_of_not_root)

lemma href_of_site_root:
  "href_of (site_root q) =
     ''https://claude.ai/'' @ (case q of None \<Rightarrow> [] | Some s \<Rightarrow> CHR ''?'' # s)"
  by (simp add: href_of_def pathname_def site_root_def)

subsection \<open>Hostname, patterns and query strings\<close>

text \<open>
  C2. \<open>isSupported()\<close> is true exactly when the hostname contains \<open>claude.ai\<close> (the one
  entry of the allow-list; the test is \<open>includes\<close>) and the full URL matches one of the four
  patterns: it starts with the chat, new-conversation or project prefix, or it is the bare
  root. It is true at \<open>https://claude.ai/chat/abc\<close> and false at
  \<open>https://claude.ai/settings\<close>.
\<close>

theorem isSupported_host_and_pattern:
  "isSupported loc =
     ((\<exists>pre suf. hostname loc = pre @ ''claude.ai'' @ suf) \<and>
      (prefix ''https://claude.ai/chat/'' (href loc) \<or>
       prefix ''https://claude.ai/new'' (href loc) \<or>
       prefix ''https://claude.ai/project/'' (href loc) \<or>
       href loc = ''https://claude.ai''))
   \<and> isSupported \<lparr>hostname = ''claude.ai'', href = ''https://claude.ai/chat/abc''\<rparr>
   \<and> \<not> isSupported \<lparr>hostname = ''claude.ai'', href = ''https://claude.ai/settings''\<rparr>"
proof (intro conjI)
  show "isSupported loc =
     ((\<exists>pre suf. hostname loc = pre @ ''claude.ai'' @ suf) \<and>
      (prefix ''https://claude.ai/chat/'' (href loc) \<or>
       prefix ''https://claude.ai/new'' (href loc) \<or>
       prefix ''https://claude.ai/project/'' (href loc) \<or>
       href loc = ''https://claude.ai''))"
    by (simp only: isSupported_char includes_str_iff)
  show "isSupported \<lparr>hostname = ''claude.ai'', href = ''https://claude.ai/chat/abc''\<rparr>"
    by (simp add: isSupported_char)
  show "\<not> isSupported \<lparr>hostname = ''claude.ai'', href = ''https://claude.ai/settings''\<rparr>"
    by (simp add: isSupported_char)
qed

theorem isSupported_host_and_pattern_witness:
  "isSupported \<lparr>hostname = ''www.claude.ai'', href = ''https://claude.ai/new?q=1''\<rparr>
   \<and> \<not> isSupported \<lparr>hostname = ''example.org'', href = ''https://claude.ai/new''\<rparr>"
proof -
  have a: "\<exists>pre suf. ''www.claude.ai'' = pre @ ''claude.ai'' @ suf"
  proof (intro exI)
    show "''www.claude.ai'' = ''www.'' @ ''claude.ai'' @ []" by simp
  qed
  have b: "prefix ''https://claude.ai/new'' ''https://claude.ai/new?q=1''" by simp
  have "isSupported \<lparr>hostname = ''www.claude.ai'', href = ''https://claude.ai/new?q=1''\<rparr>"
    using isSupported_host_and_pattern
      [of "\<lparr>hostname = ''www.claude.ai'', href = ''https://claude.ai/new?q=1''\<rparr>"] a b
    by (simp only: location.simps) blast
  moreover have "\<not> isSupported \<lparr>hostname = ''example.org'', href = ''https://claude.ai/new''\<rparr>"
    by (simp add: isSupported_char)
  ultimately show ?thesis by simp
qed


text \<open>
  C3. Take the URL of a page and change only its query (put one, change it, or take it
  away), with scheme, host, port, path and fragment as they are: the result of
  \<open>isSupported()\<close> on the location the browser reports is the same. So it is at the site
  root, which the browser reports as \<open>https://claude.ai/\<close>: there the result is false with
  any query and with none.
\<close>

theorem isSupported_query_string:
  "isSupported (location_of (u\<lparr>query := qa\<rparr>)) = isSupported (location_of (u\<lparr>query := qb\<rparr>))
   \<and> isSupported (location_of (site_root qa)) = isSupported (location_of (site_root None))
   \<and> href_of (site_root None) = ''https://claude.ai/''
   \<and> \<not> isSupported (location_of (site_root None))"
proof (intro conjI)
  have nq: "CHR ''?'' \<notin> set ''https://claude.ai/chat/''"
    "CHR ''?'' \<notin> set ''https://claude.ai/new''"
    "CHR ''?'' \<notin> set ''https://claude.ai/project/''"
    and nf: "CHR ''#'' \<notin> set ''https://claude.ai/chat/''"
    "CHR ''#'' \<notin> set ''https://claude.ai/new''"
    "CHR ''#'' \<notin> set ''https://claude.ai/project/''"
    by simp_all
  have h: "host (v\<lparr>query := q\<rparr>) = host v" for v :: url and q by simp
  show "isSupported (location_of (u\<lparr>query := qa\<rparr>)) =
        isSupported (location_of (u\<lparr>query := qb\<rparr>))"
    unfolding isSupported_location_of h
    by (simp only: prefix_href_query[OF nq(1) nf(1)] prefix_href_query[OF nq(2) nf(2)]
        prefix_href_query[OF nq(3) nf(3)])
  have r: "\<not> isSupported (location_of (site_root q))" for q
    by (cases q) (simp_all add: isSupported_location_of href_of_site_root)
  from r show "isSupported (location_of (site_root qa)) = isSupported (location_of (site_root None))"
    by simp
  show "href_of (site_root None) = ''https://claude.ai/''"
    by (simp add: href_of_site_root)
  from r show "\<not> isSupported (location_of (site_root None))" .
qed

theorem isSupported_query_string_witness:
  "href_of \<lparr>scheme = ''https'', credentials = None, host = ''claude.ai'', port = None,
            path = ''chat/abc'',
            query = Some ''model=x'', fragment = None\<rparr> = ''https://claude.ai/chat/abc?model=x''
   \<and> isSupported (location_of
        \<lparr>scheme = ''https'', credentials = None, host = ''claude.ai'', port = None,
            path = ''chat/abc'',
         query = Some ''model=x'', fragment = None\<rparr>)
   \<and> \<not> isSupported (location_of (site_root (Some ''model=x'')))"
proof -
  let ?u = "\<lparr>scheme = ''https'', credentials = None, host = ''claude.ai'', port = None,
            path = ''chat/abc'',
             query = None, fragment = None\<rparr>"
  note t = isSupported_query_string[where u = ?u and qa = "Some ''model=x''" and qb = None]
  have a: "isSupported (location_of (?u\<lparr>query := None\<rparr>))"
    by (simp add: isSupported_char location_of_def href_of_def pathname_def)
  from t a have b: "isSupported (location_of (?u\<lparr>query := Some ''model=x''\<rparr>))" by blast
  from t have c: "\<not> isSupported (location_of (site_root (Some ''model=x'')))" by blast
  have d: "href_of (?u\<lparr>query := Some ''model=x''\<rparr>) = ''https://claude.ai/chat/abc?model=x''"
    by (simp add: href_of_def pathname_def)
  from b c d show ?thesis by simp
qed

section \<open>Text insertion\<close>

subsection \<open>The value of a textarea as it is read\<close>

lemma normalizeNewlines_no_CR: "CHR 0x0D \<notin> set (normalizeNewlines s)"
  by (induction s rule: normalizeNewlines.induct) simp_all

lemma normalizeNewlines_Cons:
  "CHR 0x0D \<noteq> c \<Longrightarrow> normalizeNewlines (c # s) = c # normalizeNewlines s"
  by (cases s) auto

lemma normalizeNewlines_append:
  "CHR 0x0D \<notin> set a \<Longrightarrow> normalizeNewlines (a @ b) = a @ normalizeNewlines b"
  by (induction a) (simp_all add: normalizeNewlines_Cons)

lemma normalizeNewlines_id: "CHR 0x0D \<notin> set s \<Longrightarrow> normalizeNewlines s = s"
  using normalizeNewlines_append[of s "[]"] by simp

lemma normalizeNewlines_empty: "(normalizeNewlines s = []) = (s = [])"
  by (induction s rule: normalizeNewlines.induct) simp_all

lemma value_property_textarea:
  "tagName el = ''TEXTAREA'' \<Longrightarrow> value_property (set_strval s el) = normalizeNewlines s"
  by (simp add: value_property_def set_strval_def)

lemma value_property_no_CR:
  "tagName el = ''TEXTAREA'' \<Longrightarrow> CHR 0x0D \<notin> set (value_property el)"
  by (simp add: value_property_def normalizeNewlines_no_CR)

text \<open>
  The value a textarea reports after the previous value (as read), the separator and the
  text have been written to it.
\<close>

lemma normalizeNewlines_appended:
  assumes "tagName el = ''TEXTAREA''"
  shows "normalizeNewlines (value_property el @ separator @ text) =
         value_property el @ separator @ normalizeNewlines text"
proof -
  have "CHR 0x0D \<notin> set (value_property el @ separator)"
    using value_property_no_CR[OF assms] by (simp add: separator_def)
  from normalizeNewlines_append[OF this, of "text"] show ?thesis by simp
qed

subsection \<open>The branches, on the element\<close>

lemma insertText_into_textarea:
  assumes "tagName el = ''TEXTAREA''"
    and "v = (if value_property el = [] then normalizeNewlines text
              else value_property el @ separator @ normalizeNewlines text)"
  shows "value_property (fst (insertText_into text el)) = v"
    and "snd (insertText_into text el) =
           [Focus, SetSelectionRange (length v) (length v),
            DispatchEvent ''input'', DispatchEvent ''change'']"
  using assms normalizeNewlines_appended[OF assms(1), of "text"]
  by (simp_all add: insertText_into_def Let_def value_property_textarea)

lemma insertTextToChatInput_into_textarea:
  assumes "tagName el = ''TEXTAREA''"
    and "v = (if value_property el = [] then normalizeNewlines text
              else value_property el @ separator @ normalizeNewlines text)"
  shows "value_property (fst (insertTextToChatInput_into text el)) = v"
    and "snd (insertTextToChatInput_into text el) =
           [SetSelectionRange (length v) (length v), DispatchEvent ''input'', Focus]"
  using assms normalizeNewlines_appended[OF assms(1), of "text"]
  by (simp_all add: insertTextToChatInput_into_def Let_def value_property_textarea)

lemma insertText_into_editable:
  assumes "tagName el \<noteq> ''TEXTAREA''" and "getAttribute el ''contenteditable'' = Some ''true''"
  shows "insertText_into text el =
     (el, [Focus, SelectEndOfContents]
          @ (if trim (textContent el) \<noteq> [] then [ExecCommandInsertText separator] else [])
          @ [ExecCommandInsertText text, DispatchEvent ''input'', DispatchEvent ''change''])"
proof -
  have "trim [] = []" by (simp add: trim_def)
  then have "(textContent el \<noteq> [] \<and> trim (textContent el) \<noteq> []) = (trim (textContent el) \<noteq> [])"
    by auto
  with assms show ?thesis by (simp add: insertText_into_def Let_def)
qed

lemma insertTextToChatInput_into_editable_blank:
  assumes "tagName el \<noteq> ''TEXTAREA''" and "getAttribute el ''contenteditable'' = Some ''true''"
    and "trim (textContent el) = []"
  shows "insertTextToChatInput_into text el =
     (el, [Focus, ExecCommandInsertText text, DispatchEvent ''input''])"
  using assms by (simp add: insertTextToChatInput_into_def Let_def)

lemma insertTextToChatInput_into_editable_filled:
  assumes "tagName el \<noteq> ''TEXTAREA''" and "getAttribute el ''contenteditable'' = Some ''true''"
    and "trim (textContent el) \<noteq> []"
  shows "snd (insertTextToChatInput_into text el) =
     [Focus, SelectEndOfContents, ExecCommandInsertText separator,
      ExecCommandInsertText text, DispatchEvent ''input'']"
proof -
  have "trim [] = []" by (simp add: trim_def)
  with assms(3) have "textContent el \<noteq> []" by auto
  with assms show ?thesis by (simp add: insertTextToChatInput_into_def Let_def)
qed

subsection \<open>Locating the element\<close>

lemma insertText_located:
  assumes "first_match CHAT_INPUT doc = Some p" and "node_at p doc = Some el"
  shows "insertText text None doc =
     \<lparr>returned = True, document = update_at p (\<lambda>_. fst (insertText_into text el)) doc,
      target = Some (fst (insertText_into text el)),
      dom_calls = snd (insertText_into text el),
      emitted = [ExecutionCompleted ''insertText'']\<rparr>"
  using assms by (simp add: insertText_def split_beta)

lemma insertText_supplied:
  "insertText text (Some el) doc =
     \<lparr>returned = True, document = doc,
      target = Some (fst (insertText_into text el)),
      dom_calls = snd (insertText_into text el),
      emitted = [ExecutionCompleted ''insertText'']\<rparr>"
  by (simp add: insertText_def split_beta)

lemma matches_composer_input:
  "matches composer_input e =
     (tagName e = ''DIV'' \<and> getAttribute e ''contenteditable'' = Some ''true'' \<and>
      getAttribute e ''data-testid'' = Some ''composer-input'')"
  by (auto simp: composer_input_def matches_def attr_value_eq_exact exact_attrs
      split: option.splits)

text \<open>
  What the handler's locator returns is a \<open>div\<close> with \<open>contenteditable="true"\<close>, never a
  textarea; and where the first query finds nothing, \<open>insertTextToChatInput\<close> returns false
  and leaves the document as it is.
\<close>

lemma findChatInputElement_found:
  "(findChatInputElement doc = Inr (Some p)) = (querySelector composer_input doc = Some p)"
  by (simp add: findChatInputElement_def split: option.splits)

lemma composer_input_node:
  assumes "querySelector composer_input doc = Some p" and "node_at p doc = Some el"
  shows "tagName el = ''DIV''" and "getAttribute el ''contenteditable'' = Some ''true''"
  using querySelector_node[OF assms(1)] assms(2) by (simp_all add: matches_composer_input)

lemma insertTextToChatInput_located:
  assumes "querySelector composer_input doc = Some p" and "node_at p doc = Some el"
  shows "insertTextToChatInput text lf doc =
     \<lparr>h_returned = True,
      h_document = update_at p (\<lambda>_. fst (insertTextToChatInput_into text el)) doc,
      h_dom_calls = snd (insertTextToChatInput_into text el),
      lastFoundInputElement = Some p\<rparr>"
  using assms by (simp add: insertTextToChatInput_def findChatInputElement_def split_beta)

lemma insertTextToChatInput_not_located:
  assumes "querySelector composer_input doc = None"
  shows "insertTextToChatInput text lf doc =
     \<lparr>h_returned = False, h_document = doc, h_dom_calls = [], lastFoundInputElement = lf\<rparr>"
  using assms by (simp add: insertTextToChatInput_def findChatInputElement_def)

subsection \<open>The example pages\<close>

lemma first_match_page_textarea:
  "first_match CHAT_INPUT (page_with (a_textarea v)) = Some [0, 1, 0, 0]"
  by (simp add: CHAT_INPUT_def page_with_def a_textarea_def querySelector_def matches_def
      getAttribute_def attr_value_eq_exact exact_attrs)

lemma composer_input_page_textarea:
  "querySelector composer_input (page_with (a_textarea v)) = None"
  by (simp add: composer_input_def page_with_def a_textarea_def querySelector_def matches_def
      getAttribute_def)

lemma first_match_page_editable:
  "first_match CHAT_INPUT (page_with (an_editable t)) = Some [0, 1, 0, 0]"
  by (simp add: CHAT_INPUT_def page_with_def an_editable_def querySelector_def matches_def
      getAttribute_def attr_value_eq_exact exact_attrs)

lemma composer_input_page_editable:
  "querySelector composer_input (page_with (an_editable t)) = Some [0, 1, 0, 0]"
  by (simp add: composer_input_def page_with_def an_editable_def querySelector_def matches_def
      getAttribute_def attr_value_eq_exact exact_attrs)

lemma node_at_page_with: "node_at [0, 1, 0, 0] (page_with c) = Some c"
  by (simp add: page_with_def)

subsection \<open>Insertion into a textarea\<close>

text \<open>
  C4, as stated, fails for a text with a carriage return. On a page whose chat input is an
  empty textarea, \<open>insertText\<close> of the four characters \<open>a\<close>, carriage return, line feed, \<open>b\<close>
  leaves a textarea whose value reads \<open>a\<close>, line feed, \<open>b\<close>: three characters, not the given
  text; and the selection is set to offset 3.
\<close>

theorem insertText_textarea_carriage_return:
  "map_option value_property
     (node_at [0, 1, 0, 0]
        (document (insertText [CHR ''a'', CHR 0x0D, CHR 0x0A, CHR ''b''] None
                     (page_with (a_textarea []))))) =
     Some [CHR ''a'', CHR 0x0A, CHR ''b'']
   \<and> [CHR ''a'', CHR 0x0A, CHR ''b''] \<noteq> [CHR ''a'', CHR 0x0D, CHR 0x0A, CHR ''b'']
   \<and> dom_calls (insertText [CHR ''a'', CHR 0x0D, CHR 0x0A, CHR ''b''] None
                  (page_with (a_textarea []))) =
       [Focus, SetSelectionRange 3 3, DispatchEvent ''input'', DispatchEvent ''change'']"
  by code_simp

text \<open>
  C4, amended. The value of a textarea is what it reports when read: the string written,
  with every carriage return and line feed pair, and every carriage return alone, read as
  one line feed. On a textarea chat input (found by the selectors of the adapter, or
  supplied by the caller) whose value is empty, \<open>ClaudeAdapter.insertText\<close> leaves the value
  at the text so read, with no separator before it; when the value is not empty, at the
  previous value, two line feeds and the text so read. The selection is set to the end of
  that value, and an \<open>input\<close> event (and a \<open>change\<close> event) is dispatched. For a text
  without carriage return the text so read is the text itself. The textarea branch of
  \<open>insertTextToChatInput\<close> does the same to the element it is given; but as its locator
  stands, \<open>insertTextToChatInput\<close> is never given a textarea: what the locator finds is a
  \<open>div\<close>, and where its one query finds nothing the function returns false and leaves the
  document as it is.
\<close>

theorem insertText_textarea:
  assumes "tagName el = ''TEXTAREA''"
    and "v = (if value_property el = [] then normalizeNewlines text
              else value_property el @ separator @ normalizeNewlines text)"
  shows
    "(first_match CHAT_INPUT doc = Some p \<and> node_at p doc = Some el \<longrightarrow>
        returned (insertText text None doc) \<and>
        map_option value_property (node_at p (document (insertText text None doc))) = Some v \<and>
        dom_calls (insertText text None doc) =
          [Focus, SetSelectionRange (length v) (length v),
           DispatchEvent ''input'', DispatchEvent ''change''])
     \<and> returned (insertText text (Some el) doc)
     \<and> map_option value_property (target (insertText text (Some el) doc)) = Some v
     \<and> dom_calls (insertText text (Some el) doc) =
          [Focus, SetSelectionRange (length v) (length v),
           DispatchEvent ''input'', DispatchEvent ''change'']
     \<and> (CHR 0x0D \<notin> set text \<longrightarrow> normalizeNewlines text = text)
     \<and> value_property (fst (insertTextToChatInput_into text el)) = v
     \<and> snd (insertTextToChatInput_into text el) =
          [SetSelectionRange (length v) (length v), DispatchEvent ''input'', Focus]
     \<and> (findChatInputElement doc = Inr (Some q) \<and> node_at q doc = Some d \<longrightarrow>
          tagName d = ''DIV'')
     \<and> (querySelector composer_input doc = None \<longrightarrow>
          \<not> h_returned (insertTextToChatInput text lf doc) \<and>
          h_document (insertTextToChatInput text lf doc) = doc \<and>
          h_dom_calls (insertTextToChatInput text lf doc) = [])"
proof -
  note i = insertText_into_textarea[OF assms]
  show ?thesis
  proof (intro conjI impI)
    assume a: "first_match CHAT_INPUT doc = Some p \<and> node_at p doc = Some el"
    then have n: "node_at p doc = Some el" by simp
    from a have r: "insertText text None doc =
       \<lparr>returned = True, document = update_at p (\<lambda>_. fst (insertText_into text el)) doc,
        target = Some (fst (insertText_into text el)),
        dom_calls = snd (insertText_into text el),
        emitted = [ExecutionCompleted ''insertText'']\<rparr>"
      by (simp add: insertText_located)
    show "returned (insertText text None doc)" by (simp add: r)
    show "map_option value_property (node_at p (document (insertText text None doc))) = Some v"
      by (simp add: r node_at_update_at[OF n] i)
    show "dom_calls (insertText text None doc) =
            [Focus, SetSelectionRange (length v) (length v),
             DispatchEvent ''input'', DispatchEvent ''change'']"
      by (simp add: r i)
  next
    show "returned (insertText text (Some el) doc)" by (simp add: insertText_supplied)
    show "map_option value_property (target (insertText text (Some el) doc)) = Some v"
      by (simp add: insertText_supplied i)
    show "dom_calls (insertText text (Some el) doc) =
            [Focus, SetSelectionRange (length v) (length v),
             DispatchEvent ''input'', DispatchEvent ''change'']"
      by (simp add: insertText_supplied i)
    show "value_property (fst (insertTextToChatInput_into text el)) = v"
      by (rule insertTextToChatInput_into_textarea(1)[OF assms])
    show "snd (insertTextToChatInput_into text el) =
            [SetSelectionRange (length v) (length v), DispatchEvent ''input'', Focus]"
      by (rule insertTextToChatInput_into_textarea(2)[OF assms])
  next
    assume "CHR 0x0D \<notin> set text"
    then show "normalizeNewlines text = text" by (rule normalizeNewlines_id)
  next
    assume "findChatInputElement doc = Inr (Some q) \<and> node_at q doc = Some d"
    then show "tagName d = ''DIV''"
      using composer_input_node(1)[of doc q d] by (simp add: findChatInputElement_found)
  next
    assume "querySelector composer_input doc = None"
    note n = insertTextToChatInput_not_located[OF this, of "text" lf]
    show "\<not> h_returned (insertTextToChatInput text lf doc)" by (simp add: n)
    show "h_document (insertTextToChatInput text lf doc) = doc" by (simp add: n)
    show "h_dom_calls (insertTextToChatInput text lf doc) = []" by (simp add: n)
  qed
qed

theorem insertText_textarea_witness:
  "map_option value_property (node_at [0, 1, 0, 0]
      (document (insertText ''hello'' None (page_with (a_textarea ''draft''))))) =
     Some (''draft'' @ separator @ ''hello'')
   \<and> map_option value_property (node_at [0, 1, 0, 0]
      (document (insertText ''hello'' None (page_with (a_textarea []))))) = Some ''hello''
   \<and> value_property (fst (insertTextToChatInput_into ''hello'' (a_textarea ''draft''))) =
       ''draft'' @ separator @ ''hello''
   \<and> \<not> h_returned (insertTextToChatInput ''hello'' None (page_with (a_textarea ''draft'')))
   \<and> tagName (an_editable ''draft'') = ''DIV''"
proof -
  have t: "tagName (a_textarea s) = ''TEXTAREA''" for s by (simp add: a_textarea_def)
  have nh: "normalizeNewlines ''hello'' = ''hello''" by simp
  have vd: "value_property (a_textarea ''draft'') = ''draft''"
    by (simp add: a_textarea_def value_property_def)
  have ve: "value_property (a_textarea []) = []"
    by (simp add: a_textarea_def value_property_def)
  have v1: "''draft'' @ separator @ ''hello'' =
    (if value_property (a_textarea ''draft'') = [] then normalizeNewlines ''hello''
     else value_property (a_textarea ''draft'') @ separator @ normalizeNewlines ''hello'')"
    by (simp only: vd nh) simp
  have v2: "''hello'' =
    (if value_property (a_textarea []) = [] then normalizeNewlines ''hello''
     else value_property (a_textarea []) @ separator @ normalizeNewlines ''hello'')"
    by (simp only: ve nh) simp
  note t1 = insertText_textarea[OF t v1, where doc = "page_with (a_textarea ''draft'')"
      and p = "[0, 1, 0, 0]" and lf = None]
  note t2 = insertText_textarea[OF t v2, where doc = "page_with (a_textarea [])"
      and p = "[0, 1, 0, 0]"]
  note t3 = insertText_textarea[OF t v1, where doc = "page_with (an_editable ''draft'')"
      and q = "[0, 1, 0, 0]" and d = "an_editable ''draft''"]
  from t1 first_match_page_textarea[of "''draft''"] node_at_page_with[of "a_textarea ''draft''"]
  have a: "map_option value_property (node_at [0, 1, 0, 0]
      (document (insertText ''hello'' None (page_with (a_textarea ''draft''))))) =
     Some (''draft'' @ separator @ ''hello'')"
    by blast
  from t2 first_match_page_textarea[of "[]"] node_at_page_with[of "a_textarea []"]
  have b: "map_option value_property (node_at [0, 1, 0, 0]
      (document (insertText ''hello'' None (page_with (a_textarea []))))) = Some ''hello''"
    by blast
  from t1 have c: "value_property (fst (insertTextToChatInput_into ''hello'' (a_textarea ''draft''))) =
       ''draft'' @ separator @ ''hello''"
    by blast
  from t1 composer_input_page_textarea[of "''draft''"]
  have d: "\<not> h_returned (insertTextToChatInput ''hello'' None (page_with (a_textarea ''draft'')))"
    by blast
  have "findChatInputElement (page_with (an_editable ''draft'')) = Inr (Some [0, 1, 0, 0])"
    by (simp add: findChatInputElement_found composer_input_page_editable)
  with t3 node_at_page_with[of "an_editable ''draft''"]
  have e: "tagName (an_editable ''draft'') = ''DIV''" by blast
  from a b c d e show ?thesis by blast
qed

subsection \<open>Content that is white space only\<close>

text \<open>
  C10. The two interaction models test for existing content differently. A textarea whose
  value is not empty but trims to empty still gets the two line feeds before the text (the
  test is the truthiness of the value). A contenteditable element whose text content is
  not empty but trims to empty gets the text alone, with no separator inserted (the test
  trims); when the text content does not trim to empty, the separator is inserted first.
  This is so for \<open>ClaudeAdapter.insertText\<close>, on the element its selectors find and on the
  element the caller supplies; for \<open>insertTextToChatInput\<close> on the contenteditable element
  that its locator finds; and for the textarea branch of \<open>insertTextToChatInput\<close> on the
  element it is given.
\<close>

theorem insertText_whitespace_only:
  assumes "node_at p doc = Some el"
  shows
    "(first_match CHAT_INPUT doc = Some p \<and> tagName el = ''TEXTAREA'' \<and>
      value_property el \<noteq> [] \<and> trim (value_property el) = [] \<longrightarrow>
        map_option value_property (node_at p (document (insertText text None doc))) =
          Some (value_property el @ separator @ normalizeNewlines text))
     \<and> (first_match CHAT_INPUT doc = Some p \<and> tagName el \<noteq> ''TEXTAREA'' \<and>
         getAttribute el ''contenteditable'' = Some ''true'' \<and>
         textContent el \<noteq> [] \<and> trim (textContent el) = [] \<longrightarrow>
        dom_calls (insertText text None doc) =
          [Focus, SelectEndOfContents, ExecCommandInsertText text,
           DispatchEvent ''input'', DispatchEvent ''change''])
     \<and> (first_match CHAT_INPUT doc = Some p \<and> tagName el \<noteq> ''TEXTAREA'' \<and>
         getAttribute el ''contenteditable'' = Some ''true'' \<and>
         trim (textContent el) \<noteq> [] \<longrightarrow>
        dom_calls (insertText text None doc) =
          [Focus, SelectEndOfContents, ExecCommandInsertText separator,
           ExecCommandInsertText text, DispatchEvent ''input'', DispatchEvent ''change''])
     \<and> (tagName el = ''TEXTAREA'' \<and> value_property el \<noteq> [] \<and> trim (value_property el) = [] \<longrightarrow>
        map_option value_property (target (insertText text (Some el) doc)) =
          Some (value_property el @ separator @ normalizeNewlines text))
     \<and> (tagName el \<noteq> ''TEXTAREA'' \<and> getAttribute el ''contenteditable'' = Some ''true'' \<and>
         textContent el \<noteq> [] \<and> trim (textContent el) = [] \<longrightarrow>
        dom_calls (insertText text (Some el) doc) =
          [Focus, SelectEndOfContents, ExecCommandInsertText text,
           DispatchEvent ''input'', DispatchEvent ''change''])
     \<and> (querySelector composer_input doc = Some p \<and>
         textContent el \<noteq> [] \<and> trim (textContent el) = [] \<longrightarrow>
        h_returned (insertTextToChatInput text lf doc) \<and>
        h_dom_calls (insertTextToChatInput text lf doc) =
          [Focus, ExecCommandInsertText text, DispatchEvent ''input''])
     \<and> (querySelector composer_input doc = Some p \<and> trim (textContent el) \<noteq> [] \<longrightarrow>
        h_returned (insertTextToChatInput text lf doc) \<and>
        h_dom_calls (insertTextToChatInput text lf doc) =
          [Focus, SelectEndOfContents, ExecCommandInsertText separator,
           ExecCommandInsertText text, DispatchEvent ''input''])
     \<and> (tagName el = ''TEXTAREA'' \<and> value_property el \<noteq> [] \<and> trim (value_property el) = [] \<longrightarrow>
        value_property (fst (insertTextToChatInput_into text el)) =
          value_property el @ separator @ normalizeNewlines text)"
proof (intro conjI impI)
    assume a: "first_match CHAT_INPUT doc = Some p \<and> tagName el = ''TEXTAREA'' \<and>
      value_property el \<noteq> [] \<and> trim (value_property el) = []"
    then have f: "first_match CHAT_INPUT doc = Some p" and t: "tagName el = ''TEXTAREA''"
      and ne: "value_property el \<noteq> []" by simp_all
    from ne have v: "value_property el @ separator @ normalizeNewlines text =
      (if value_property el = [] then normalizeNewlines text
       else value_property el @ separator @ normalizeNewlines text)" by simp
    show "map_option value_property (node_at p (document (insertText text None doc))) =
          Some (value_property el @ separator @ normalizeNewlines text)"
      by (simp add: insertText_located[OF f assms] node_at_update_at[OF assms]
          insertText_into_textarea(1)[OF t v])
next
    assume a: "first_match CHAT_INPUT doc = Some p \<and> tagName el \<noteq> ''TEXTAREA'' \<and>
         getAttribute el ''contenteditable'' = Some ''true'' \<and>
         textContent el \<noteq> [] \<and> trim (textContent el) = []"
    then have f: "first_match CHAT_INPUT doc = Some p" and t: "tagName el \<noteq> ''TEXTAREA''"
      and c: "getAttribute el ''contenteditable'' = Some ''true''"
      and b: "trim (textContent el) = []" by simp_all
    show "dom_calls (insertText text None doc) =
          [Focus, SelectEndOfContents, ExecCommandInsertText text,
           DispatchEvent ''input'', DispatchEvent ''change'']"
      by (simp add: insertText_located[OF f assms] insertText_into_editable[OF t c] b)
next
    assume a: "first_match CHAT_INPUT doc = Some p \<and> tagName el \<noteq> ''TEXTAREA'' \<and>
         getAttribute el ''contenteditable'' = Some ''true'' \<and> trim (textContent el) \<noteq> []"
    then have f: "first_match CHAT_INPUT doc = Some p" and t: "tagName el \<noteq> ''TEXTAREA''"
      and c: "getAttribute el ''contenteditable'' = Some ''true''"
      and b: "trim (textContent el) \<noteq> []" by simp_all
    show "dom_calls (insertText text None doc) =
          [Focus, SelectEndOfContents, ExecCommandInsertText separator,
           ExecCommandInsertText text, DispatchEvent ''input'', DispatchEvent ''change'']"
      by (simp add: insertText_located[OF f assms] insertText_into_editable[OF t c] b)
next
    assume a: "tagName el = ''TEXTAREA'' \<and> value_property el \<noteq> [] \<and>
      trim (value_property el) = []"
    then have t: "tagName el = ''TEXTAREA''" and ne: "value_property el \<noteq> []" by simp_all
    from ne have v: "value_property el @ separator @ normalizeNewlines text =
      (if value_property el = [] then normalizeNewlines text
       else value_property el @ separator @ normalizeNewlines text)" by simp
    show "map_option value_property (target (insertText text (Some el) doc)) =
          Some (value_property el @ separator @ normalizeNewlines text)"
      by (simp add: insertText_supplied insertText_into_textarea(1)[OF t v])
    show "value_property (fst (insertTextToChatInput_into text el)) =
          value_property el @ separator @ normalizeNewlines text"
      by (rule insertTextToChatInput_into_textarea(1)[OF t v])
next
    assume a: "tagName el \<noteq> ''TEXTAREA'' \<and> getAttribute el ''contenteditable'' = Some ''true'' \<and>
         textContent el \<noteq> [] \<and> trim (textContent el) = []"
    then have t: "tagName el \<noteq> ''TEXTAREA''"
      and c: "getAttribute el ''contenteditable'' = Some ''true''"
      and b: "trim (textContent el) = []" by simp_all
    show "dom_calls (insertText text (Some el) doc) =
          [Focus, SelectEndOfContents, ExecCommandInsertText text,
           DispatchEvent ''input'', DispatchEvent ''change'']"
      by (simp add: insertText_supplied insertText_into_editable[OF t c] b)
next
    assume a: "querySelector composer_input doc = Some p \<and>
         textContent el \<noteq> [] \<and> trim (textContent el) = []"
    then have f: "querySelector composer_input doc = Some p"
      and b: "trim (textContent el) = []" by simp_all
    from composer_input_node[OF f assms] have t: "tagName el \<noteq> ''TEXTAREA''"
      and c: "getAttribute el ''contenteditable'' = Some ''true''" by simp_all
    show "h_returned (insertTextToChatInput text lf doc)"
      by (simp add: insertTextToChatInput_located[OF f assms])
    show "h_dom_calls (insertTextToChatInput text lf doc) =
          [Focus, ExecCommandInsertText text, DispatchEvent ''input'']"
      by (simp add: insertTextToChatInput_located[OF f assms]
          insertTextToChatInput_into_editable_blank[OF t c b])
next
    assume a: "querySelector composer_input doc = Some p \<and> trim (textContent el) \<noteq> []"
    then have f: "querySelector composer_input doc = Some p"
      and b: "trim (textContent el) \<noteq> []" by simp_all
    from composer_input_node[OF f assms] have t: "tagName el \<noteq> ''TEXTAREA''"
      and c: "getAttribute el ''contenteditable'' = Some ''true''" by simp_all
    show "h_returned (insertTextToChatInput text lf doc)"
      by (simp add: insertTextToChatInput_located[OF f assms])
    show "h_dom_calls (insertTextToChatInput text lf doc) =
          [Focus, SelectEndOfContents, ExecCommandInsertText separator,
           ExecCommandInsertText text, DispatchEvent ''input'']"
      by (simp add: insertTextToChatInput_located[OF f assms]
          insertTextToChatInput_into_editable_filled[OF t c b])
qed

theorem insertText_whitespace_only_witness:
  "map_option value_property (node_at [0, 1, 0, 0]
      (document (insertText ''hello'' None (page_with (a_textarea ''  ''))))) =
     Some (''  '' @ separator @ ''hello'')
   \<and> value_property (fst (insertTextToChatInput_into ''hello'' (a_textarea ''  ''))) =
       ''  '' @ separator @ ''hello''
   \<and> dom_calls (insertText ''hello'' None (page_with (an_editable ''  ''))) =
       [Focus, SelectEndOfContents, ExecCommandInsertText ''hello'',
        DispatchEvent ''input'', DispatchEvent ''change'']
   \<and> dom_calls (insertText ''hello'' (Some (an_editable ''  '')) (page_with (an_editable ''  ''))) =
       [Focus, SelectEndOfContents, ExecCommandInsertText ''hello'',
        DispatchEvent ''input'', DispatchEvent ''change'']
   \<and> h_dom_calls (insertTextToChatInput ''hello'' None (page_with (an_editable ''  ''))) =
       [Focus, ExecCommandInsertText ''hello'', DispatchEvent ''input'']
   \<and> dom_calls (insertText ''hello'' None (page_with (an_editable ''draft''))) =
       [Focus, SelectEndOfContents, ExecCommandInsertText separator,
        ExecCommandInsertText ''hello'', DispatchEvent ''input'', DispatchEvent ''change'']
   \<and> h_dom_calls (insertTextToChatInput ''hello'' None (page_with (an_editable ''draft''))) =
       [Focus, SelectEndOfContents, ExecCommandInsertText separator,
        ExecCommandInsertText ''hello'', DispatchEvent ''input'']"
proof -
  have ws: "isWhiteSpace (CHR '' '')" by (simp add: isWhiteSpace_def)
  have nws: "\<not> isWhiteSpace (CHR ''d'')" "\<not> isWhiteSpace (CHR ''t'')"
    by (simp_all add: isWhiteSpace_def)
  have nh: "normalizeNewlines ''hello'' = ''hello''" by simp
  have sv: "value_property (a_textarea ''  '') = ''  ''"
    by (simp add: a_textarea_def value_property_def)
  have ta: "tagName (a_textarea ''  '') = ''TEXTAREA'' \<and> value_property (a_textarea ''  '') \<noteq> [] \<and>
      trim (value_property (a_textarea ''  '')) = []"
    by (simp add: sv) (simp add: a_textarea_def trim_def ws)
  have eb: "tagName (an_editable ''  '') \<noteq> ''TEXTAREA'' \<and>
      getAttribute (an_editable ''  '') ''contenteditable'' = Some ''true'' \<and>
      textContent (an_editable ''  '') \<noteq> [] \<and> trim (textContent (an_editable ''  '')) = []"
    by (simp add: an_editable_def getAttribute_def trim_def ws)
  have ef: "tagName (an_editable ''draft'') \<noteq> ''TEXTAREA'' \<and>
      getAttribute (an_editable ''draft'') ''contenteditable'' = Some ''true'' \<and>
      trim (textContent (an_editable ''draft'')) \<noteq> []"
    by (simp add: an_editable_def getAttribute_def trim_def nws)
  note t1 = insertText_whitespace_only[OF node_at_page_with[of "a_textarea ''  ''"],
      where ?text = "''hello''" and lf = None]
  note t2 = insertText_whitespace_only[OF node_at_page_with[of "an_editable ''  ''"],
      where ?text = "''hello''" and lf = None]
  note t3 = insertText_whitespace_only[OF node_at_page_with[of "an_editable ''draft''"],
      where ?text = "''hello''" and lf = None]
  from t1 first_match_page_textarea[of "''  ''"] ta
  have "map_option value_property (node_at [0, 1, 0, 0]
      (document (insertText ''hello'' None (page_with (a_textarea ''  ''))))) =
     Some (value_property (a_textarea ''  '') @ separator @ normalizeNewlines ''hello'')"
    by blast
  then have a: "map_option value_property (node_at [0, 1, 0, 0]
      (document (insertText ''hello'' None (page_with (a_textarea ''  ''))))) =
     Some (''  '' @ separator @ ''hello'')"
    by (simp only: sv nh)
  from t1 ta
  have "value_property (fst (insertTextToChatInput_into ''hello'' (a_textarea ''  ''))) =
       value_property (a_textarea ''  '') @ separator @ normalizeNewlines ''hello''"
    by blast
  then have b: "value_property (fst (insertTextToChatInput_into ''hello'' (a_textarea ''  ''))) =
       ''  '' @ separator @ ''hello''"
    by (simp only: sv nh)
  from t2 first_match_page_editable[of "''  ''"] eb
  have c: "dom_calls (insertText ''hello'' None (page_with (an_editable ''  ''))) =
       [Focus, SelectEndOfContents, ExecCommandInsertText ''hello'',
        DispatchEvent ''input'', DispatchEvent ''change'']"
    by blast
  from t2 eb
  have d: "dom_calls (insertText ''hello'' (Some (an_editable ''  ''))
                        (page_with (an_editable ''  ''))) =
       [Focus, SelectEndOfContents, ExecCommandInsertText ''hello'',
        DispatchEvent ''input'', DispatchEvent ''change'']"
    by blast
  from t2 composer_input_page_editable[of "''  ''"] eb
  have e: "h_dom_calls (insertTextToChatInput ''hello'' None (page_with (an_editable ''  ''))) =
       [Focus, ExecCommandInsertText ''hello'', DispatchEvent ''input'']"
    by blast
  from t3 first_match_page_editable[of "''draft''"] ef
  have f: "dom_calls (insertText ''hello'' None (page_with (an_editable ''draft''))) =
       [Focus, SelectEndOfContents, ExecCommandInsertText separator,
        ExecCommandInsertText ''hello'', DispatchEvent ''input'', DispatchEvent ''change'']"
    by blast
  from t3 composer_input_page_editable[of "''draft''"] ef
  have g: "h_dom_calls (insertTextToChatInput ''hello'' None (page_with (an_editable ''draft''))) =
       [Focus, SelectEndOfContents, ExecCommandInsertText separator,
        ExecCommandInsertText ''hello'', DispatchEvent ''input'']"
    by blast
  from a b c d e f g show ?thesis by blast
qed

section \<open>The submit trigger\<close>

lemma submitChatInput_enabled_at_call:
  assumes "lastFound \<noteq> None \<or> querySelector composer_input doc \<noteq> None"
    and "findSubmitButton (page env 0) = Some b"
    and "\<not> isDisabled b"
    and "\<not> disabled_property (after_click env b)"
  shows "submitChatInput maxWaitTime lastFound doc env = [Click, Resolve True, ClearInterval]"
proof -
  from assms(1) obtain p where
    "(case lastFound of Some p \<Rightarrow> Inr (Some p) | None \<Rightarrow> findChatInputElement doc) =
       Inr (Some p)"
    by (cases lastFound) (auto simp: findChatInputElement_def)
  with assms(2,3,4) show ?thesis
    by (simp add: submitChatInput_def Let_def tryClickingButton_def)
qed

text \<open>Where there is no composer input to find, the promise resolves false.\<close>

lemma submitChatInput_not_located:
  assumes "querySelector composer_input doc = None"
  shows "submitChatInput maxWaitTime None doc env = [Resolve False]"
  using assms by (simp add: submitChatInput_def findChatInputElement_def)

text \<open>
  C1 does not hold of the code. The chat input is the composer element that the locator
  finds, in a form with a submit button. The interval is cleared after the immediate attempt only
  (and there on the \<open>disabled\<close> property of the button first found, not on whether a click
  happened), never in the interval callback after a click. With a wait budget of 1000 ms
  and a submit button that is disabled at the call and enabled from the first tick on, the
  button is clicked at each of the five ticks, and at the last tick the form's submit event
  is dispatched as well. With a button that carries \<open>aria-disabled="true"\<close> at the call and
  is enabled from the first tick on, the interval is cleared at once: the button is never
  clicked and the promise never settles.
\<close>

theorem submitChatInput_poll_not_cancelled:
  "submitChatInput 1000 None (page_with (an_editable ''hi'')) page_enabled_later =
     [Click, Resolve True, Click, Resolve True, Click, Resolve True, Click, Resolve True,
      Click, Resolve True, ClearInterval, DispatchSubmit, Resolve True]
   \<and> clicks (submitChatInput 1000 None (page_with (an_editable ''hi'')) page_enabled_later) = 5
   \<and> submitChatInput 5000 None (page_with (an_editable ''hi'')) page_aria_disabled_first =
       [ClearInterval]
   \<and> promise (submitChatInput 5000 None (page_with (an_editable ''hi'')) page_aria_disabled_first)
       = None"
  by code_simp

section \<open>File attachment\<close>

lemma supportsFileUpload_iff:
  "supportsFileUpload doc = (first_match DROP_ZONE doc \<noteq> None \<or> querySelector FILE_INPUT doc \<noteq> None)"
  by (simp add: supportsFileUpload_def)

text \<open>
  C7, as stated, fails when the caller supplies the native file input and the page itself
  has neither a drop zone nor a file input: \<open>supportsFileUpload()\<close> is asked first, and the
  function returns false without assigning the file.
\<close>

theorem attachFile_supplied_input_unsupported_page:
  "attachFile (Some a_file) (Some a_file_input) (page_with (a_textarea [])) =
     Inr \<lparr>a_returned = False, a_calls = [],
          a_emitted = [ExecutionFailed ''attachFile''
                         ''File upload not supported on current page'']\<rparr>"
  by (simp add: attachFile_def a_file_def supportsFileUpload_def DROP_ZONE_def FILE_INPUT_def
      page_with_def a_textarea_def querySelector_def matches_def getAttribute_def classList_def)

text \<open>
  C7, amended. \<open>attachFile\<close> returns false when the file is empty, and when the page has
  neither a drop zone nor a file input of its own (whether or not the caller supplied an
  input element). Otherwise, when a file input is at hand (supplied by the caller, or found
  in the page) the file is assigned to it, a \<open>change\<close> event is dispatched on it and the
  result is true; and when none is, the events \<open>dragenter\<close>, \<open>dragover\<close>, \<open>drop\<close> are
  dispatched on the first drop zone and the result is true.
\<close>

theorem attachFile_cases:
  "(file_size f = 0 \<or> (first_match DROP_ZONE doc = None \<and> querySelector FILE_INPUT doc = None) \<longrightarrow>
      (\<exists>r. attachFile (Some f) opt doc = Inr r \<and> \<not> a_returned r \<and> a_calls r = []))
   \<and> (file_size f \<noteq> 0 \<and> supportsFileUpload doc \<and> opt \<noteq> None \<longrightarrow>
        attachFile (Some f) opt doc =
          Inr \<lparr>a_returned = True,
               a_calls = [SetFiles SuppliedInput f, DispatchOn SuppliedInput ''change''],
               a_emitted = [ExecutionCompleted ''attachFile'']\<rparr>)
   \<and> (file_size f \<noteq> 0 \<and> opt = None \<and> querySelector FILE_INPUT doc = Some p \<longrightarrow>
        attachFile (Some f) opt doc =
          Inr \<lparr>a_returned = True,
               a_calls = [SetFiles (InDocument p) f, DispatchOn (InDocument p) ''change''],
               a_emitted = [ExecutionCompleted ''attachFile'']\<rparr>)
   \<and> (file_size f \<noteq> 0 \<and> opt = None \<and> querySelector FILE_INPUT doc = None \<and>
       first_match DROP_ZONE doc = Some dz \<longrightarrow>
        attachFile (Some f) opt doc =
          Inr \<lparr>a_returned = True,
               a_calls = [DispatchOn (InDocument dz) ''dragenter'',
                          DispatchOn (InDocument dz) ''dragover'',
                          DispatchOn (InDocument dz) ''drop''],
               a_emitted = [ExecutionCompleted ''attachFile'']\<rparr>)"
proof (intro conjI impI)
  assume "file_size f = 0 \<or> (first_match DROP_ZONE doc = None \<and> querySelector FILE_INPUT doc = None)"
  then show "\<exists>r. attachFile (Some f) opt doc = Inr r \<and> \<not> a_returned r \<and> a_calls r = []"
    by (auto simp: attachFile_def supportsFileUpload_iff)
next
  assume "file_size f \<noteq> 0 \<and> supportsFileUpload doc \<and> opt \<noteq> None"
  then show "attachFile (Some f) opt doc =
          Inr \<lparr>a_returned = True,
               a_calls = [SetFiles SuppliedInput f, DispatchOn SuppliedInput ''change''],
               a_emitted = [ExecutionCompleted ''attachFile'']\<rparr>"
    by (cases opt) (auto simp: attachFile_def)
next
  assume "file_size f \<noteq> 0 \<and> opt = None \<and> querySelector FILE_INPUT doc = Some p"
  then show "attachFile (Some f) opt doc =
          Inr \<lparr>a_returned = True,
               a_calls = [SetFiles (InDocument p) f, DispatchOn (InDocument p) ''change''],
               a_emitted = [ExecutionCompleted ''attachFile'']\<rparr>"
    by (simp add: attachFile_def supportsFileUpload_iff)
next
  assume "file_size f \<noteq> 0 \<and> opt = None \<and> querySelector FILE_INPUT doc = None \<and>
       first_match DROP_ZONE doc = Some dz"
  then show "attachFile (Some f) opt doc =
          Inr \<lparr>a_returned = True,
               a_calls = [DispatchOn (InDocument dz) ''dragenter'',
                          DispatchOn (InDocument dz) ''dragover'',
                          DispatchOn (InDocument dz) ''drop''],
               a_emitted = [ExecutionCompleted ''attachFile'']\<rparr>"
    by (simp add: attachFile_def supportsFileUpload_iff simulateFileDrop_def)
qed

lemma page_editable_no_file_input:
  "querySelector FILE_INPUT (page_with (an_editable t)) = None"
  by (simp add: FILE_INPUT_def page_with_def an_editable_def querySelector_def matches_def
      getAttribute_def)

lemma page_editable_drop_zone:
  "first_match DROP_ZONE (page_with (an_editable t)) = Some [0, 1, 0, 0]"
  by (simp add: DROP_ZONE_def page_with_def an_editable_def querySelector_def matches_def
      getAttribute_def attr_value_eq_refl)

lemma page_file_input:
  "querySelector FILE_INPUT (page_with a_file_input) = Some [0, 1, 0, 0]"
  by (simp add: FILE_INPUT_def page_with_def a_file_input_def querySelector_def matches_def
      getAttribute_def attr_value_eq_refl)

theorem attachFile_cases_witness:
  "(\<exists>r. attachFile (Some (a_file\<lparr>file_size := 0\<rparr>)) None (page_with a_file_input) = Inr r \<and>
        \<not> a_returned r \<and> a_calls r = [])
   \<and> attachFile (Some a_file) (Some a_file_input) (page_with (an_editable [])) =
        Inr \<lparr>a_returned = True,
             a_calls = [SetFiles SuppliedInput a_file, DispatchOn SuppliedInput ''change''],
             a_emitted = [ExecutionCompleted ''attachFile'']\<rparr>
   \<and> attachFile (Some a_file) None (page_with a_file_input) =
        Inr \<lparr>a_returned = True,
             a_calls = [SetFiles (InDocument [0, 1, 0, 0]) a_file,
                        DispatchOn (InDocument [0, 1, 0, 0]) ''change''],
             a_emitted = [ExecutionCompleted ''attachFile'']\<rparr>
   \<and> attachFile (Some a_file) None (page_with (an_editable [])) =
        Inr \<lparr>a_returned = True,
             a_calls = [DispatchOn (InDocument [0, 1, 0, 0]) ''dragenter'',
                        DispatchOn (InDocument [0, 1, 0, 0]) ''dragover'',
                        DispatchOn (InDocument [0, 1, 0, 0]) ''drop''],
             a_emitted = [ExecutionCompleted ''attachFile'']\<rparr>"
proof -
  have s0: "file_size (a_file\<lparr>file_size := 0\<rparr>) = 0" by simp
  have s1: "file_size a_file \<noteq> 0" by (simp add: a_file_def)
  have sup: "supportsFileUpload (page_with (an_editable []))"
    by (simp add: supportsFileUpload_iff page_editable_drop_zone)
  note t1 = attachFile_cases[of "a_file\<lparr>file_size := 0\<rparr>" "page_with a_file_input" None]
  note t2 = attachFile_cases[of a_file "page_with (an_editable [])" "Some a_file_input"]
  note t3 = attachFile_cases[of a_file "page_with a_file_input" None "[0, 1, 0, 0]"]
  note t4 = attachFile_cases[of a_file "page_with (an_editable [])" None _ "[0, 1, 0, 0]"]
  from t1 s0 have a: "\<exists>r. attachFile (Some (a_file\<lparr>file_size := 0\<rparr>)) None (page_with a_file_input) = Inr r \<and>
        \<not> a_returned r \<and> a_calls r = []" by blast
  from t2 s1 sup have b: "attachFile (Some a_file) (Some a_file_input) (page_with (an_editable [])) =
        Inr \<lparr>a_returned = True,
             a_calls = [SetFiles SuppliedInput a_file, DispatchOn SuppliedInput ''change''],
             a_emitted = [ExecutionCompleted ''attachFile'']\<rparr>" by blast
  from t3 s1 page_file_input have c: "attachFile (Some a_file) None (page_with a_file_input) =
        Inr \<lparr>a_returned = True,
             a_calls = [SetFiles (InDocument [0, 1, 0, 0]) a_file,
                        DispatchOn (InDocument [0, 1, 0, 0]) ''change''],
             a_emitted = [ExecutionCompleted ''attachFile'']\<rparr>" by blast
  from t4 s1 page_editable_no_file_input page_editable_drop_zone
  have d: "attachFile (Some a_file) None (page_with (an_editable [])) =
        Inr \<lparr>a_returned = True,
             a_calls = [DispatchOn (InDocument [0, 1, 0, 0]) ''dragenter'',
                        DispatchOn (InDocument [0, 1, 0, 0]) ''dragover'',
                        DispatchOn (InDocument [0, 1, 0, 0]) ''drop''],
             a_emitted = [ExecutionCompleted ''attachFile'']\<rparr>" by blast
  from a b c d show ?thesis by blast
qed

text \<open>
  C8 does not hold of the code. \<open>attachFile\<close> reads \<open>file.name\<close> in its first statement,
  before the \<open>try\<close> block and before its own test \<open>!file\<close>; called with \<open>null\<close> it throws,
  so the promise rejects and no failure event is emitted.
\<close>

theorem attachFile_null_rejects:
  "attachFile None None (page_with a_file_input) = Inl TypeError"
  by (simp add: attachFile_def)

section \<open>The lifecycle\<close>

subsection \<open>The style sheet's id is kept apart\<close>

lemma matches_simple_set_kids: "matches_simple s (set_kids ks e) = matches_simple s e"
  by (cases s) (simp_all add: set_kids_def getAttribute_def classList_def)

lemma matches_set_kids: "matches sel (set_kids ks e) = matches sel e"
  by (simp add: matches_def matches_simple_set_kids)

lemma mount_related_set_kids: "mount_related (set_kids ks e) = mount_related e"
  by (simp add: mount_related_def is_insertion_container_def matches_set_kids has_id_set_kids)

lemma styles_apart_kids:
  "styles_apart e =
     (if has_id style_id e \<and> count_if mount_related e \<noteq> 0 then False
      else list_all styles_apart (kids e))"
  by (cases e) (simp only: styles_apart.simps elem.sel)

lemma styles_apart_node:
  "styles_apart e \<Longrightarrow> node_at p e = Some x \<Longrightarrow> styles_apart x"
proof (induction p arbitrary: e)
  case Nil
  then show ?case by simp
next
  case (Cons i q)
  from Cons.prems(2) have i: "i < length (kids e)" and n: "node_at q (kids e ! i) = Some x"
    by (auto split: if_splits)
  from Cons.prems(1) have "list_all styles_apart (kids e)"
    by (simp add: styles_apart_kids[of e] split: if_splits)
  with i have "styles_apart (kids e ! i)" by (simp add: list_all_length)
  from Cons.IH[OF this n] show ?case .
qed

lemma style_node_free:
  "styles_apart x \<Longrightarrow> has_id style_id x \<Longrightarrow> count_if mount_related x = 0"
  by (simp add: styles_apart_kids[of x] split: if_splits)

lemma count_on_path:
  "node_at p e = Some c \<Longrightarrow> P c \<Longrightarrow> 1 \<le> count_if P e"
proof (induction p arbitrary: e)
  case Nil
  then have "P e" by simp
  then show ?case by (simp add: count_if_kids[of P e])
next
  case (Cons i q)
  from Cons.prems(1) have i: "i < length (kids e)" and n: "node_at q (kids e ! i) = Some c"
    by (auto split: if_splits)
  from Cons.IH[OF n Cons.prems(2)] have "1 \<le> count_if P (kids e ! i)" .
  moreover have "count_if P (kids e ! i) \<le> sum_list (map (count_if P) (kids e))"
    using nth_le_sum_list[of i "map (count_if P) (kids e)"] i by simp
  ultimately show ?case by (simp add: count_if_kids[of P e])
qed

lemma list_all_update:
  "list_all P xs \<Longrightarrow> P x \<Longrightarrow> list_all P (xs[i := x])"
  using set_update_subset_insert[of xs i x] by (auto simp: list_all_iff)

lemma styles_apart_set_kids:
  "styles_apart (set_kids ks e) =
     (if has_id style_id e \<and> count_if mount_related (set_kids ks e) \<noteq> 0 then False
      else list_all styles_apart ks)"
  by (cases e) (simp add: set_kids_def has_id_def getAttribute_def del: count_if.simps)

text \<open>A change of the child list of a node that is itself mount-related.\<close>

lemma styles_apart_grow:
  assumes "styles_apart e" and "node_at p e = Some c" and "mount_related c"
    and "list_all styles_apart (g (kids c))"
  shows "styles_apart (map_kids_at p g e)"
  using assms(1,2)
proof (induction p arbitrary: e)
  case Nil
  then have e: "e = c" by simp
  have "1 \<le> count_if mount_related c"
    using assms(3) by (simp add: count_if_kids[of mount_related c])
  with style_node_free[of c] Nil.prems(1) e have "\<not> has_id style_id c" by auto
  with assms(4) e show ?case by (simp add: map_kids_at_def styles_apart_set_kids)
next
  case (Cons i q)
  from Cons.prems(2) have i: "i < length (kids e)" and n: "node_at q (kids e ! i) = Some c"
    by (auto split: if_splits)
  from count_on_path[of "i # q" e c mount_related, OF Cons.prems(2) assms(3)]
    style_node_free[of e] Cons.prems(1)
  have ns: "\<not> has_id style_id e" by auto
  from Cons.prems(1) have la: "list_all styles_apart (kids e)"
    by (simp add: styles_apart_kids[of e] split: if_splits)
  with i have "styles_apart (kids e ! i)" by (simp add: list_all_length)
  from Cons.IH[OF this n] have "styles_apart (map_kids_at q g (kids e ! i))" .
  with la have "list_all styles_apart ((kids e)[i := map_kids_at q g (kids e ! i)])"
    by (rule list_all_update)
  moreover have "map_kids_at (i # q) g e = set_kids ((kids e)[i := map_kids_at q g (kids e ! i)]) e"
    using i by (simp add: map_kids_at_def)
  ultimately show ?case using ns by (simp add: styles_apart_set_kids)
qed

text \<open>A change of a child list that adds nothing mount-related.\<close>

lemma styles_apart_shrink:
  assumes "styles_apart e" and "node_at p e = Some x"
    and "sum_list (map (count_if mount_related) (g (kids x))) \<le>
         sum_list (map (count_if mount_related) (kids x))"
    and "list_all styles_apart (g (kids x))"
  shows "styles_apart (map_kids_at p g e)"
  using assms(1,2)
proof (induction p arbitrary: e)
  case Nil
  then have e: "e = x" by simp
  have c: "count_if mount_related (set_kids (g (kids x)) x) \<le> count_if mount_related x"
    using assms(3)
    by (simp add: count_if_set_kids[of mount_related, OF mount_related_set_kids]
        count_if_kids[of mount_related x])
  show ?case
  proof (cases "has_id style_id x")
    case True
    with style_node_free[of x] Nil.prems(1) e have "count_if mount_related x = 0" by simp
    with c assms(4) e show ?thesis by (simp add: map_kids_at_def styles_apart_set_kids)
  next
    case False
    with assms(4) e show ?thesis by (simp add: map_kids_at_def styles_apart_set_kids)
  qed
next
  case (Cons i q)
  from Cons.prems(2) have i: "i < length (kids e)" and n: "node_at q (kids e ! i) = Some x"
    by (auto split: if_splits)
  from Cons.prems(1) have la: "list_all styles_apart (kids e)"
    by (simp add: styles_apart_kids[of e] split: if_splits)
  with i have "styles_apart (kids e ! i)" by (simp add: list_all_length)
  from Cons.IH[OF this n] have "styles_apart (map_kids_at q g (kids e ! i))" .
  with la have l: "list_all styles_apart ((kids e)[i := map_kids_at q g (kids e ! i)])"
    by (rule list_all_update)
  have u: "map_kids_at (i # q) g e = set_kids ((kids e)[i := map_kids_at q g (kids e ! i)]) e"
    using i by (simp add: map_kids_at_def)
  from count_if_map_kids_at[of mount_related, OF mount_related_set_kids Cons.prems(2), of g]
    assms(3)
  have c: "count_if mount_related (map_kids_at (i # q) g e) \<le> count_if mount_related e"
    by linarith
  show ?case
  proof (cases "has_id style_id e")
    case True
    with style_node_free[of e] Cons.prems(1) have "count_if mount_related e = 0" by simp
    with c have "count_if mount_related (map_kids_at (i # q) g e) = 0" by simp
    with l u show ?thesis by (simp add: styles_apart_set_kids)
  next
    case False
    with l u show ?thesis by (simp add: styles_apart_set_kids)
  qed
qed

lemma list_all_without_nth:
  "list_all P ks \<Longrightarrow> list_all P (take i ks @ drop (Suc i) ks)"
  by (auto simp: list_all_iff dest: in_set_takeD in_set_dropD)

lemma styles_apart_removeNode:
  assumes "styles_apart doc" and "node_at p doc = Some x"
  shows "styles_apart (removeNode p doc)"
proof (cases "p = []")
  case True
  with assms show ?thesis by (simp add: removeNode_def)
next
  case False
  from node_at_parent[OF assms(2) False] obtain y where
    y: "node_at (butlast p) doc = Some y" "last p < length (kids y)" by blast
  from styles_apart_node[OF assms(1) y(1)] have "list_all styles_apart (kids y)"
    by (simp add: styles_apart_kids[of y] split: if_splits)
  then have l: "list_all styles_apart (take (last p) (kids y) @ drop (Suc (last p)) (kids y))"
    by (rule list_all_without_nth)
  from sum_list_without_nth[OF y(2), of "count_if mount_related"]
  have s: "sum_list (map (count_if mount_related)
             (take (last p) (kids y) @ drop (Suc (last p)) (kids y))) \<le>
           sum_list (map (count_if mount_related) (kids y))"
    by linarith
  from styles_apart_shrink[OF assms(1) y(1), of "\<lambda>ks. take (last p) ks @ drop (Suc (last p)) ks",
      OF s l] False
  show ?thesis by (simp add: removeNode_def)
qed

subsection \<open>The nodes the adapter creates, and the places it finds\<close>

lemma count_if_mono:
  assumes "\<And>e. P e \<Longrightarrow> Q e"
  shows "count_if P e \<le> count_if Q e"
proof (induction e)
  case (Elem t a v ks)
  have "sum_list (map (count_if P) ks) \<le> sum_list (map (count_if Q) ks)"
    using Elem by (intro sum_list_mono) simp
  moreover have "(if P (Elem t a v ks) then 1 else 0) \<le> (if Q (Elem t a v ks) then 1 else (0::nat))"
    using assms[of "Elem t a v ks"] by simp
  ultimately show ?case by simp
qed

lemma popover_le_mount_related:
  "count_if (has_id popover_id) e \<le> count_if mount_related e"
  by (rule count_if_mono) (simp add: mount_related_def)

lemma styleElement_facts:
  "count_if (has_id popover_id) styleElement = 0"
  "count_if mount_related styleElement = 0"
  "styles_apart styleElement"
  by (simp_all add: styleElement_def has_id_def getAttribute_def popover_id_def style_id_def
      mount_related_def is_insertion_container_def matches_def classList_def fallbackSelectors_def)

lemma reactContainer_facts:
  "count_if (has_id popover_id) reactContainer = 1"
  "styles_apart reactContainer"
  by (simp_all add: reactContainer_def has_id_def getAttribute_def popover_id_def style_id_def)

lemma index_from_sound:
  "index_from P xs i = Some j \<Longrightarrow> i \<le> j \<and> j - i < length xs \<and> P (xs ! (j - i))"
proof (induction xs arbitrary: i)
  case Nil
  then show ?case by simp
next
  case (Cons x xs)
  show ?case
  proof (cases "P x")
    case True
    with Cons.prems show ?thesis by simp
  next
    case False
    with Cons.prems have "index_from P xs (Suc i) = Some j" by simp
    from Cons.IH[OF this] have "Suc i \<le> j" "j - Suc i < length xs" "P (xs ! (j - Suc i))"
      by simp_all
    moreover from \<open>Suc i \<le> j\<close> have "j - i = Suc (j - Suc i)" by simp
    ultimately show ?thesis by simp
  qed
qed

lemma child_of_html_node:
  assumes "child_of_html t doc = Some h"
  shows "\<exists>x. node_at h doc = Some x"
proof -
  from assms obtain i j where
    i: "index_from (\<lambda>e. tagName e = ''HTML'') (kids doc) 0 = Some i"
    and j: "index_from (\<lambda>e. tagName e = t) (kids (kids doc ! i)) 0 = Some j"
    and h: "h = [i, j]"
    by (auto simp: child_of_html_def split: option.splits)
  from index_from_sound[OF i] have "i < length (kids doc)" by simp
  moreover from index_from_sound[OF j] have "j < length (kids (kids doc ! i))" by simp
  ultimately show ?thesis using h by simp
qed

lemma matches_first_match_node:
  assumes "first_match sels doc = Some p"
  shows "p \<noteq> [] \<and> (\<exists>x. node_at p doc = Some x \<and> list_ex (\<lambda>s. matches s x) sels)"
  using assms
proof (induction sels)
  case Nil
  then show ?case by simp
next
  case (Cons s ss)
  show ?case
  proof (cases "querySelector s doc")
    case None
    with Cons show ?thesis by auto
  next
    case (Some p')
    with Cons.prems have "p' = p" by simp
    with Some querySelector_node[of s doc p] querySelector_nonempty[of s doc p]
    show ?thesis by auto
  qed
qed

lemma findButtonInsertionPoint_node:
  assumes "findButtonInsertionPoint doc = Some ip"
  shows "\<exists>c. node_at (container ip) doc = Some c \<and> mount_related c"
proof (cases "querySelector [[Tag ''FIELDSET'']] doc")
  case (Some f)
  with assms have "container ip = f" by (auto simp: findButtonInsertionPoint_def)
  with querySelector_node[OF Some] show ?thesis
    by (auto simp: mount_related_def is_insertion_container_def)
next
  case None
  note n1 = None
  show ?thesis
  proof (cases "querySelector [[Class ''composer-controls''],
                               [AttrEq ''data-testid'' ''composer-footer'']] doc")
    case (Some cc)
    with n1 assms have "container ip = cc" by (auto simp: findButtonInsertionPoint_def)
    with querySelector_node[OF Some] show ?thesis
      by (auto simp: mount_related_def is_insertion_container_def)
  next
    case None
    with n1 assms obtain c where c: "first_match fallbackSelectors doc = Some c"
      and "container ip = c"
      by (auto simp: findButtonInsertionPoint_def split: option.splits)
    with matches_first_match_node[OF c] show ?thesis
      by (auto simp: mount_related_def is_insertion_container_def)
  qed
qed

subsection \<open>The popover count and the style sheet's id under the three mutations\<close>

lemma remove_style_node:
  assumes "styles_apart doc" and "getElementById style_id doc = Some p"
  shows "styles_apart (removeNode p doc) \<and>
         count_below (has_id popover_id) (removeNode p doc) = count_below (has_id popover_id) doc"
proof -
  from getElementById_node[OF assms(2)] obtain x where
    p: "p \<noteq> []" and x: "node_at p doc = Some x" "has_id style_id x" by blast
  from styles_apart_node[OF assms(1) x(1)] x(2) have "count_if mount_related x = 0"
    by (rule style_node_free)
  with popover_le_mount_related[of x] have z: "count_if (has_id popover_id) x = 0" by simp
  from count_below_removeNode[of "has_id popover_id", OF has_id_set_kids x(1) p] z
  have "count_below (has_id popover_id) (removeNode p doc) = count_below (has_id popover_id) doc"
    by simp
  with styles_apart_removeNode[OF assms(1) x(1)] show ?thesis by simp
qed

lemma append_style_node:
  assumes "styles_apart doc" and "node_at h doc = Some x"
  shows "styles_apart (appendChild h styleElement doc) \<and>
         count_below (has_id popover_id) (appendChild h styleElement doc) =
         count_below (has_id popover_id) doc"
proof -
  from styles_apart_node[OF assms] have "list_all styles_apart (kids x)"
    by (simp add: styles_apart_kids[of x] split: if_splits)
  then have l: "list_all styles_apart (kids x @ [styleElement])"
    by (simp add: styleElement_facts(3))
  have s: "sum_list (map (count_if mount_related) (kids x @ [styleElement])) \<le>
      sum_list (map (count_if mount_related) (kids x))"
    by (simp add: styleElement_facts(2))
  from styles_apart_shrink[OF assms, of "\<lambda>ks. ks @ [styleElement]", OF s l]
  have "styles_apart (appendChild h styleElement doc)" by (simp add: appendChild_def)
  with count_below_appendChild[of "has_id popover_id", OF has_id_set_kids assms(2), of styleElement]
  show ?thesis by (simp add: styleElement_facts(1))
qed

lemma remove_popover_node:
  assumes "styles_apart doc" and "getElementById popover_id doc = Some p"
    and "count_below (has_id popover_id) doc \<le> 1"
  shows "styles_apart (removeNode p doc) \<and> count_below (has_id popover_id) (removeNode p doc) = 0"
proof -
  from getElementById_node[OF assms(2)] obtain x where
    p: "p \<noteq> []" and x: "node_at p doc = Some x" "has_id popover_id x" by blast
  from x(2) have "1 \<le> count_if (has_id popover_id) x"
    by (simp add: count_if_kids[of "has_id popover_id" x])
  with count_below_removeNode[of "has_id popover_id", OF has_id_set_kids x(1) p] assms(3)
  have "count_below (has_id popover_id) (removeNode p doc) = 0" by linarith
  with styles_apart_removeNode[OF assms(1) x(1)] show ?thesis by simp
qed

lemma insert_popover_node:
  assumes "styles_apart doc" and "node_at c doc = Some x" and "mount_related x"
  shows "styles_apart (appendChild c reactContainer doc) \<and>
         count_below (has_id popover_id) (appendChild c reactContainer doc) =
           count_below (has_id popover_id) doc + 1 \<and>
         styles_apart (insertChildAt c k reactContainer doc) \<and>
         count_below (has_id popover_id) (insertChildAt c k reactContainer doc) =
           count_below (has_id popover_id) doc + 1"
proof -
  from styles_apart_node[OF assms(1,2)] have la: "list_all styles_apart (kids x)"
    by (simp add: styles_apart_kids[of x] split: if_splits)
  then have l1: "list_all styles_apart (kids x @ [reactContainer])"
    by (simp add: reactContainer_facts(2))
  from la have l2: "list_all styles_apart (take k (kids x) @ reactContainer # drop k (kids x))"
    by (auto simp: list_all_iff reactContainer_facts(2) dest: in_set_takeD in_set_dropD)
  from styles_apart_grow[OF assms, of "\<lambda>ks. ks @ [reactContainer]", OF l1]
  have a: "styles_apart (appendChild c reactContainer doc)" by (simp add: appendChild_def)
  from styles_apart_grow[OF assms, of "\<lambda>ks. take k ks @ reactContainer # drop k ks", OF l2]
  have b: "styles_apart (insertChildAt c k reactContainer doc)" by (simp add: insertChildAt_def)
  from a b
    count_below_appendChild[of "has_id popover_id", OF has_id_set_kids assms(2), of reactContainer]
    count_below_insertChildAt[of "has_id popover_id", OF has_id_set_kids assms(2), of k reactContainer]
  show ?thesis by (simp add: reactContainer_facts(1))
qed

subsection \<open>Mount attempts are gentle\<close>

lemma handle_in_step_eq:
  "dom w' = dom w \<Longrightarrow> mcpPopoverContainer (self w') = mcpPopoverContainer (self w) \<Longrightarrow>
   handle_in_step w' = handle_in_step w"
  by (simp add: handle_in_step_def popover_count_def)

lemma gentle_at_same:
  assumes "dom (f w) = dom w"
    and "mcpPopoverContainer (self (f w)) = mcpPopoverContainer (self w)"
    and "same_frame w (f w)"
  shows "gentle_at f w"
  using assms handle_in_step_eq[OF assms(1,2)]
  by (simp add: gentle_at_def popover_count_def)

lemma gentle_at_comp:
  assumes "gentle_at g w" and "gentle_at f (g w)"
  shows "gentle_at (\<lambda>w. f (g w)) w"
  using assms by (auto simp: gentle_at_def same_frame_def)

lemma set_timer_fields [simp]:
  "dom (set_timer k d cb w) = dom w" "self (set_timer k d cb w) = self w"
  "window_location (set_timer k d cb w) = window_location w"
  "activeSidebarManager (set_timer k d cb w) = activeSidebarManager w"
  by (simp_all add: set_timer_def)

lemma clear_timer_fields [simp]:
  "dom (clear_timer h w) = dom w" "self (clear_timer h w) = self w"
  "window_location (clear_timer h w) = window_location w"
  "activeSidebarManager (clear_timer h w) = activeSidebarManager w"
  by (simp_all add: clear_timer_def)

lemma emit_fields [simp]:
  "dom (emit e w) = dom w" "self (emit e w) = self w"
  "window_location (emit e w) = window_location w"
  "activeSidebarManager (emit e w) = activeSidebarManager w"
  by (simp_all add: emit_def)

lemma renderMCPPopover_fields [simp]:
  "dom (renderMCPPopover w) = dom w" "self (renderMCPPopover w) = self w"
  "window_location (renderMCPPopover w) = window_location w"
  "activeSidebarManager (renderMCPPopover w) = activeSidebarManager w"
  by (simp_all add: renderMCPPopover_def)

lemma gentle_set_timer: "gentle_at (set_timer k d cb) w"
  by (rule gentle_at_same) (simp_all add: same_frame_def)

lemma gentle_clear_timer: "gentle_at (clear_timer h) w"
  by (rule gentle_at_same) (simp_all add: same_frame_def)

lemma gentle_id: "gentle_at (\<lambda>w. w) w"
  by (rule gentle_at_same) (simp_all add: same_frame_def)

lemma gentle_render_when_imported: "gentle_at render_when_imported w"
  by (rule gentle_at_same) (simp_all add: render_when_imported_def same_frame_def)

lemma gentle_setupUIIntegration: "gentle_at setupUIIntegration w"
  by (rule gentle_at_same)
    (simp_all add: setupUIIntegration_def waitForPageReady_def same_frame_def)

lemma injectMCPPopover_absent:
  assumes ip: "findButtonInsertionPoint (dom w) = Some ip"
    and none: "getElementById popover_id (dom w) = None"
  shows "popover_count (injectMCPPopover ip w) = 1"
    and "mcpPopoverContainer (self (injectMCPPopover ip w)) = Some reactContainer"
    and "styles_apart (dom w) \<Longrightarrow> styles_apart (dom (injectMCPPopover ip w))"
    and "same_frame w (injectMCPPopover ip w)"
proof -
  from findButtonInsertionPoint_node[OF ip] obtain c where
    c: "node_at (container ip) (dom w) = Some c" "mount_related c" by blast
  from none have z: "count_below (has_id popover_id) (dom w) = 0"
    by (simp add: getElementById_none_iff)
  note a = count_below_appendChild[of "has_id popover_id", OF has_id_set_kids c(1), of reactContainer]
  note b = count_below_insertChildAt[of "has_id popover_id", OF has_id_set_kids c(1),
      of _ reactContainer]
  from a b z none show "popover_count (injectMCPPopover ip w) = 1"
    by (simp add: injectMCPPopover_def popover_count_def Let_def reactContainer_facts(1)
        split: option.splits)
  from none show "mcpPopoverContainer (self (injectMCPPopover ip w)) = Some reactContainer"
    by (simp add: injectMCPPopover_def Let_def)
  from none show "same_frame w (injectMCPPopover ip w)"
    by (simp add: injectMCPPopover_def Let_def same_frame_def)
  assume "styles_apart (dom w)"
  from insert_popover_node[OF this c] none
  show "styles_apart (dom (injectMCPPopover ip w))"
    by (simp add: injectMCPPopover_def Let_def split: option.splits)
qed

lemma gentle_injectMCPPopover:
  assumes "findButtonInsertionPoint (dom w) = Some ip"
  shows "gentle_at (injectMCPPopover ip) w"
proof (cases "getElementById popover_id (dom w)")
  case (Some p)
  then have "injectMCPPopover ip w = w" by (simp add: injectMCPPopover_def)
  then show ?thesis by (simp add: gentle_at_def same_frame_def)
next
  case None
  note f = injectMCPPopover_absent[OF assms None]
  from None have z: "popover_count w = 0"
    by (simp add: popover_count_def getElementById_none_iff)
  from f z None show ?thesis
    by (auto simp: gentle_at_def handle_in_step_def)
qed

lemma gentle_attemptInjection: "gentle_at (attemptInjection attempt maxRetries) w"
proof (cases "getElementById popover_id (dom w)")
  case (Some p)
  then have "attemptInjection attempt maxRetries w = w" by (simp add: attemptInjection_def)
  then show ?thesis by (simp add: gentle_at_def same_frame_def)
next
  case None
  show ?thesis
  proof (cases "findButtonInsertionPoint (dom w)")
    case (Some ip)
    with None have "attemptInjection attempt maxRetries w = injectMCPPopover ip w"
      by (simp add: attemptInjection_def)
    with gentle_injectMCPPopover[OF Some] show ?thesis by (simp add: gentle_at_def)
  next
    case n: None
    with None have "attemptInjection attempt maxRetries w =
        (if attempt < maxRetries
         then set_timer Timeout 1000 (AttemptInjection (attempt + 1) maxRetries) w else w)"
      by (simp add: attemptInjection_def)
    with gentle_set_timer[of Timeout 1000 "AttemptInjection (attempt + 1) maxRetries" w]
      gentle_id[of w]
    show ?thesis by (simp add: gentle_at_def)
  qed
qed

lemma gentle_injectMCPPopoverWithRetry: "gentle_at (injectMCPPopoverWithRetry m) w"
  using gentle_attemptInjection[of 1 m w]
  by (simp add: gentle_at_def injectMCPPopoverWithRetry_def)

lemma gentle_checkReady: "gentle_at (checkReady n) w"
proof (cases "findButtonInsertionPoint (dom w)")
  case (Some ip)
  then have "checkReady n w = injectMCPPopoverWithRetry 5 w" by (simp add: checkReady_def)
  with gentle_injectMCPPopoverWithRetry[of 5 w] show ?thesis by (simp add: gentle_at_def)
next
  case None
  then have "checkReady n w =
      (if n + 1 \<ge> 10 then w else set_timer Timeout 500 (CheckReady (n + 1)) w)"
    by (simp add: checkReady_def)
  with gentle_set_timer[of Timeout 500 "CheckReady (n + 1)" w] gentle_id[of w]
  show ?thesis by (simp add: gentle_at_def)
qed

lemma gentle_checkAndRestoreSidebar: "gentle_at checkAndRestoreSidebar w"
  using gentle_injectMCPPopoverWithRetry[of 3 w] gentle_id[of w]
  by (simp add: gentle_at_def checkAndRestoreSidebar_def ensureMCPPopoverConnection_def)

lemma gentle_observerCallback: "gentle_at observerCallback w"
  using gentle_setupUIIntegration[of w] gentle_id[of w]
  by (simp add: gentle_at_def observerCallback_def split: option.splits)

subsection \<open>The lifecycle methods keep the handle in step\<close>

lemma injectClaudeButtonStyles_fields [simp]:
  "mcpPopoverContainer (self (injectClaudeButtonStyles w)) = mcpPopoverContainer (self w)"
  "currentStatus (self (injectClaudeButtonStyles w)) = currentStatus (self w)"
  "lastUrl (self (injectClaudeButtonStyles w)) = lastUrl (self w)"
  "window_location (injectClaudeButtonStyles w) = window_location w"
  by (simp_all add: injectClaudeButtonStyles_def Let_def split: option.splits)

lemma injectClaudeButtonStyles_dom:
  "dom (injectClaudeButtonStyles w) =
     (if claudeStylesInjected (self w) then dom w
      else
        (let doc1 = (case getElementById style_id (dom w) of
                       Some p \<Rightarrow> removeNode p (dom w) | None \<Rightarrow> dom w)
         in case document_head doc1 of
              None \<Rightarrow> doc1 | Some h \<Rightarrow> appendChild h styleElement doc1))"
  by (simp add: injectClaudeButtonStyles_def Let_def split: option.splits)


lemma injectClaudeButtonStyles_apart:
  assumes "styles_apart (dom w)"
  shows "styles_apart (dom (injectClaudeButtonStyles w)) \<and>
         popover_count (injectClaudeButtonStyles w) = popover_count w"
proof -
  let ?d1 = "case getElementById style_id (dom w) of
               Some p \<Rightarrow> removeNode p (dom w) | None \<Rightarrow> dom w"
  have a: "styles_apart ?d1 \<and>
      count_below (has_id popover_id) ?d1 = count_below (has_id popover_id) (dom w)"
  proof (cases "getElementById style_id (dom w)")
    case None
    with assms show ?thesis by simp
  next
    case (Some p)
    with remove_style_node[OF assms Some] show ?thesis by simp
  qed
  have b: "styles_apart
        (case document_head ?d1 of None \<Rightarrow> ?d1 | Some h \<Rightarrow> appendChild h styleElement ?d1) \<and>
      count_below (has_id popover_id)
        (case document_head ?d1 of None \<Rightarrow> ?d1 | Some h \<Rightarrow> appendChild h styleElement ?d1) =
      count_below (has_id popover_id) ?d1"
  proof (cases "document_head ?d1")
    case None
    with a show ?thesis by simp
  next
    case (Some h)
    then obtain x where x: "node_at h ?d1 = Some x"
      using child_of_html_node[of "''HEAD''" ?d1 h] by (auto simp: document_head_def)
    from a have "styles_apart ?d1" by simp
    from append_style_node[OF this x] Some show ?thesis by simp
  qed
  from a b assms show ?thesis
    by (simp add: popover_count_def injectClaudeButtonStyles_dom Let_def)
qed

lemma his_injectClaudeButtonStyles:
  "handle_in_step w \<Longrightarrow> handle_in_step (injectClaudeButtonStyles w)"
proof -
  assume h: "handle_in_step w"
  then have "styles_apart (dom w)" by (simp add: handle_in_step_def split: if_splits)
  from injectClaudeButtonStyles_apart[OF this] h show ?thesis
    by (simp add: handle_in_step_def split: if_splits)
qed

lemma his_same:
  assumes "handle_in_step w" and "dom w' = dom w"
    and "mcpPopoverContainer (self w') = mcpPopoverContainer (self w)"
  shows "handle_in_step w'"
  using assms handle_in_step_eq[OF assms(2,3)] by simp

lemma his_set_timer: "handle_in_step w \<Longrightarrow> handle_in_step (set_timer k d cb w)"
  by (erule his_same) simp_all

lemma his_emit: "handle_in_step w \<Longrightarrow> handle_in_step (emit e w)"
  by (erule his_same) simp_all

lemma his_setupUIIntegration: "handle_in_step w \<Longrightarrow> handle_in_step (setupUIIntegration w)"
  using gentle_setupUIIntegration[of w] by (simp add: gentle_at_def)

lemma his_onPageChanged: "handle_in_step w \<Longrightarrow> handle_in_step (onPageChanged url w)"
proof -
  assume h: "handle_in_step w"
  let ?w1 = "w\<lparr>self := (self w)\<lparr>lastUrl := url\<rparr>\<rparr>"
  from h have "handle_in_step ?w1" by (rule his_same) simp_all
  then have "handle_in_step (injectClaudeButtonStyles ?w1)" by (rule his_injectClaudeButtonStyles)
  then have "handle_in_step (set_timer Timeout 1500 PageChangedCheck
      (set_timer Timeout 1000 PageChangedSetup (injectClaudeButtonStyles ?w1)))"
    by (intro his_set_timer)
  with \<open>handle_in_step ?w1\<close> show ?thesis
    by (simp add: onPageChanged_def Let_def his_emit)
qed

lemma his_urlCheck: "handle_in_step w \<Longrightarrow> handle_in_step (urlCheck w)"
proof -
  assume h: "handle_in_step w"
  let ?u = "href (window_location w)"
  from his_onPageChanged[OF h, of ?u]
  have "handle_in_step ((onPageChanged ?u w)\<lparr>self := (self (onPageChanged ?u w))\<lparr>lastUrl := ?u\<rparr>\<rparr>)"
    by (rule his_same) simp_all
  with h show ?thesis by (simp add: urlCheck_def Let_def)
qed

lemma his_run_callback: "handle_in_step w \<Longrightarrow> handle_in_step (run_callback cb w)"
proof (cases cb)
  case UrlCheck
  assume "handle_in_step w"
  with UrlCheck show ?thesis by (simp add: run_callback_def his_urlCheck)
next
  case (CheckReady n)
  assume "handle_in_step w"
  with CheckReady gentle_checkReady[of n w] show ?thesis
    by (simp add: gentle_at_def run_callback_def)
next
  case (AttemptInjection a m)
  assume "handle_in_step w"
  with AttemptInjection gentle_attemptInjection[of a m w] show ?thesis
    by (simp add: gentle_at_def run_callback_def)
next
  case PageChangedSetup
  assume "handle_in_step w"
  with PageChangedSetup show ?thesis by (simp add: run_callback_def his_setupUIIntegration)
next
  case PageChangedCheck
  assume "handle_in_step w"
  with PageChangedCheck gentle_checkAndRestoreSidebar[of w] show ?thesis
    by (simp add: gentle_at_def run_callback_def)
next
  case RenderPopover
  assume "handle_in_step w"
  with RenderPopover gentle_render_when_imported[of w] show ?thesis
    by (simp add: gentle_at_def run_callback_def)
qed

lemma his_clear_timer: "handle_in_step w \<Longrightarrow> handle_in_step (clear_timer h w)"
  by (erule his_same) simp_all

lemma his_fire: "handle_in_step w \<Longrightarrow> handle_in_step (fire h w)"
  by (simp add: fire_def his_run_callback his_clear_timer split: option.splits)

lemma his_cleanupUIIntegration:
  assumes "handle_in_step w"
  shows "handle_in_step (cleanupUIIntegration w)"
proof -
  from assms have sa: "styles_apart (dom w)" and c: "popover_count w \<le> 1"
    by (simp_all add: handle_in_step_def split: if_splits)
  show ?thesis
  proof (cases "getElementById popover_id (dom w)")
    case None
    then have "popover_count w = 0" by (simp add: popover_count_def getElementById_none_iff)
    with None sa show ?thesis
      by (simp add: cleanupUIIntegration_def handle_in_step_def popover_count_def)
  next
    case (Some p)
    from remove_popover_node[OF sa Some] c Some show ?thesis
      by (simp add: cleanupUIIntegration_def handle_in_step_def popover_count_def)
  qed
qed

lemma his_cleanupDOMObservers: "handle_in_step w \<Longrightarrow> handle_in_step (cleanupDOMObservers w)"
  by (erule his_same) (simp_all add: cleanupDOMObservers_def)

lemma his_deactivate: "handle_in_step w \<Longrightarrow> handle_in_step (deactivate w)"
proof -
  assume h: "handle_in_step w"
  then have "handle_in_step (super_deactivate w)"
    by (rule his_same) (simp_all add: super_deactivate_def)
  then have "handle_in_step (cleanupDOMObservers (cleanupUIIntegration (super_deactivate w)))"
    by (intro his_cleanupDOMObservers his_cleanupUIIntegration)
  then have "handle_in_step
     ((cleanupDOMObservers (cleanupUIIntegration (super_deactivate w)))
        \<lparr>self := (self (cleanupDOMObservers (cleanupUIIntegration (super_deactivate w))))
           \<lparr>storeEventListenersSetup := False, domObserversSetup := False,
            uiIntegrationSetup := False\<rparr>\<rparr>)"
    by (rule his_same) simp_all
  with h show ?thesis by (simp add: deactivate_def Let_def his_emit)
qed

lemma his_remove_style:
  assumes "handle_in_step w"
  shows "handle_in_step
     (case getElementById style_id (dom w) of
        Some styleEl \<Rightarrow>
          w\<lparr>dom := removeNode styleEl (dom w),
            self := (self w)\<lparr>claudeStylesInjected := False\<rparr>\<rparr>
      | None \<Rightarrow> w)"
proof (cases "getElementById style_id (dom w)")
  case None
  with assms show ?thesis by simp
next
  case (Some p)
  from assms have "styles_apart (dom w)" by (simp add: handle_in_step_def split: if_splits)
  from remove_style_node[OF this Some] assms Some show ?thesis
    by (simp add: handle_in_step_def popover_count_def split: if_splits)
qed

lemma his_cleanup: "handle_in_step w \<Longrightarrow> handle_in_step (cleanup w)"
proof -
  assume h: "handle_in_step w"
  let ?w1 = "super_cleanup w"
  let ?w2 = "case urlCheckInterval (self ?w1) of
               Some h \<Rightarrow> (clear_timer h ?w1)\<lparr>self := (self ?w1)\<lparr>urlCheckInterval := None\<rparr>\<rparr>
             | None \<Rightarrow> ?w1"
  let ?w3 = "case popoverCheckInterval (self ?w2) of
               Some h \<Rightarrow> (clear_timer h ?w2)\<lparr>self := (self ?w2)\<lparr>popoverCheckInterval := None\<rparr>\<rparr>
             | None \<Rightarrow> ?w2"
  let ?w4 = "cleanupDOMObservers (cleanupUIIntegration ?w3)"
  let ?w5 = "case getElementById style_id (dom ?w4) of
               Some styleEl \<Rightarrow>
                 ?w4\<lparr>dom := removeNode styleEl (dom ?w4),
                     self := (self ?w4)\<lparr>claudeStylesInjected := False\<rparr>\<rparr>
             | None \<Rightarrow> ?w4"
  from h have h1: "handle_in_step ?w1" by (rule his_same) (simp_all add: super_cleanup_def)
  then have h2: "handle_in_step ?w2"
    by (rule his_same) (simp_all split: option.splits)
  then have h3: "handle_in_step ?w3"
    by (rule his_same) (simp_all split: option.splits)
  then have h4: "handle_in_step ?w4"
    by (intro his_cleanupDOMObservers his_cleanupUIIntegration)
  then have h5: "handle_in_step ?w5" by (rule his_remove_style)
  then have "handle_in_step
     (?w5\<lparr>self := (self ?w5)\<lparr>storeEventListenersSetup := False, domObserversSetup := False,
                              uiIntegrationSetup := False, claudeStylesInjected := False\<rparr>\<rparr>)"
    by (rule his_same) simp_all
  then show ?thesis by (simp add: cleanup_def Let_def)
qed

lemma his_initialize: "handle_in_step w \<Longrightarrow> handle_in_step (initialize w)"
  by (erule his_same)
    (simp_all add: initialize_def Let_def super_initialize_def setupStoreEventListeners_def
      setupUrlTracking_def)

lemma setupDOMObservers_fields [simp]:
  "dom (snd (setupDOMObservers w)) = dom w"
  "mcpPopoverContainer (self (snd (setupDOMObservers w))) = mcpPopoverContainer (self w)"
  "currentStatus (self (snd (setupDOMObservers w))) = currentStatus (self w)"
  "lastUrl (self (snd (setupDOMObservers w))) = lastUrl (self w)"
  "window_location (snd (setupDOMObservers w)) = window_location w"
  by (simp_all add: setupDOMObservers_def split: option.splits)

lemma activate_cases:
  "snd (activate w) =
     (if currentStatus (self w) = Active then w
      else
        (let w1 = snd (setupDOMObservers (injectClaudeButtonStyles (super_activate w)))
         in if fst (setupDOMObservers (injectClaudeButtonStyles (super_activate w))) = None
            then emit ''adapter:activated'' (setupUIIntegration w1)
            else w1))"
  by (cases "setupDOMObservers (injectClaudeButtonStyles (super_activate w))")
    (auto simp: activate_def Let_def)

lemma his_activate: "handle_in_step w \<Longrightarrow> handle_in_step (snd (activate w))"
proof -
  assume h: "handle_in_step w"
  then have "handle_in_step (super_activate w)"
    by (rule his_same) (simp_all add: super_activate_def)
  then have "handle_in_step (injectClaudeButtonStyles (super_activate w))"
    by (rule his_injectClaudeButtonStyles)
  then have a: "handle_in_step (snd (setupDOMObservers (injectClaudeButtonStyles (super_activate w))))"
    by (rule his_same) simp_all
  then have "handle_in_step (emit ''adapter:activated''
      (setupUIIntegration (snd (setupDOMObservers (injectClaudeButtonStyles (super_activate w))))))"
    by (intro his_emit his_setupUIIntegration)
  with a h show ?thesis by (simp add: activate_cases Let_def)
qed

lemma his_onHostChanged: "handle_in_step w \<Longrightarrow> handle_in_step (onHostChanged w)"
  by (simp add: onHostChanged_def his_emit his_setupUIIntegration)

lemma his_apply_step: "handle_in_step w \<Longrightarrow> handle_in_step (apply_step s w)"
proof (cases s)
  case (Navigate l)
  assume "handle_in_step w"
  then have "handle_in_step (w\<lparr>window_location := l\<rparr>)" by (rule his_same) simp_all
  with Navigate show ?thesis by (simp add: apply_step_def)
next
  case InjectManually
  assume "handle_in_step w"
  with InjectManually gentle_injectMCPPopoverWithRetry[of 5 w] show ?thesis
    by (simp add: apply_step_def gentle_at_def)
next
  case ObserverCallback
  assume "handle_in_step w"
  with ObserverCallback gentle_observerCallback[of w] show ?thesis
    by (simp add: apply_step_def gentle_at_def)
qed (simp_all add: apply_step_def his_initialize his_activate his_deactivate his_cleanup
    his_fire his_onHostChanged)

lemma his_run: "handle_in_step w \<Longrightarrow> handle_in_step (run ss w)"
  by (induction ss arbitrary: w) (simp_all add: his_apply_step)

subsection \<open>Activation\<close>
















subsection \<open>The handle and the mounted container\<close>

text \<open>
  C9, as stated, fails when two instances share the document. Instance A is initialised
  and activated on a chat page and mounts the popover container when its readiness check
  comes due. Instance B, new, is then initialised and activated on the same document: its
  mount attempt finds the container of A and returns, so the handle of B stays null while
  a container is mounted.
\<close>

theorem second_instance_handle_null_while_mounted:
  "mcpPopoverContainer
     (self (run [Initialize, Activate, Fire 2]
        (new_world (dom (run [Initialize, Activate, Fire 2] (new_world chat_page)))))) = None
   \<and> getElementById popover_id
       (dom (run [Initialize, Activate, Fire 2]
          (new_world (dom (run [Initialize, Activate, Fire 2] (new_world chat_page))))))
     = Some [0, 1, 0, 0, 1]"
  by code_simp

text \<open>
  C9, amended. An instance holds one handle (the field \<open>mcpPopoverContainer\<close>). Let it be
  the only one that mounts or unmounts the popover container in its document: at the start
  at most one popover container is there and the handle is null exactly when none is, and
  no element with the id of the adapter's style sheet has a popover container or an
  insertion container inside it. Then after every sequence of adapter operations
  (initialize, activate, deactivate, cleanup, timers and retries coming due, observer
  reports, manual injection, host changes, navigation) the handle is null if and only if no
  popover container is mounted, and at most one is.
\<close>

theorem handle_null_iff_unmounted:
  assumes "styles_apart (dom w)"
    and "popover_count w \<le> 1"
    and "(mcpPopoverContainer (self w) = None) = (getElementById popover_id (dom w) = None)"
  shows "((mcpPopoverContainer (self (run steps w)) = None) =
          (getElementById popover_id (dom (run steps w)) = None))
     \<and> popover_count (run steps w) \<le> 1
     \<and> styles_apart (dom (run steps w))"
proof -
  from assms have "handle_in_step w"
    by (simp add: handle_in_step_def popover_count_def getElementById_none_iff)
  then have "handle_in_step (run steps w)" by (rule his_run)
  then show ?thesis
    by (simp add: handle_in_step_def popover_count_def getElementById_none_iff split: if_splits)
qed

theorem handle_null_iff_unmounted_witness:
  "mcpPopoverContainer (self (run [Initialize, Activate, Fire 2] (new_world chat_page)))
     = Some reactContainer
   \<and> getElementById popover_id (dom (run [Initialize, Activate, Fire 2] (new_world chat_page)))
     \<noteq> None
   \<and> mcpPopoverContainer
       (self (run [Initialize, Activate, Fire 2, Deactivate] (new_world chat_page))) = None
   \<and> getElementById popover_id
       (dom (run [Initialize, Activate, Fire 2, Deactivate] (new_world chat_page))) = None"
proof -
  have a: "styles_apart (dom (new_world chat_page))" by code_simp
  have b: "popover_count (new_world chat_page) \<le> 1" by code_simp
  have c: "(mcpPopoverContainer (self (new_world chat_page)) = None) =
      (getElementById popover_id (dom (new_world chat_page)) = None)" by code_simp
  have m: "mcpPopoverContainer (self (run [Initialize, Activate, Fire 2] (new_world chat_page)))
     = Some reactContainer" by code_simp
  have u: "getElementById popover_id
       (dom (run [Initialize, Activate, Fire 2, Deactivate] (new_world chat_page))) = None"
    by code_simp
  from handle_null_iff_unmounted[OF a b c, of "[Initialize, Activate, Fire 2]"] m
  have "getElementById popover_id (dom (run [Initialize, Activate, Fire 2] (new_world chat_page)))
     \<noteq> None" by simp
  moreover from handle_null_iff_unmounted[OF a b c, of "[Initialize, Activate, Fire 2, Deactivate]"] u
  have "mcpPopoverContainer
       (self (run [Initialize, Activate, Fire 2, Deactivate] (new_world chat_page))) = None"
    by simp
  ultimately show ?thesis using m u by simp
qed

section \<open>Cleanup\<close>

text \<open>
  C6 does not hold of the code. \<open>cleanup\<close> clears the two interval handles it keeps; the
  timeouts of \<open>waitForPageReady\<close> and of \<open>injectMCPPopoverWithRetry\<close> are never stored, so
  they cannot be cleared. On a chat page, \<open>initialize\<close>, \<open>activate\<close> and then \<open>cleanup\<close>
  (before the first readiness check, 100 ms later) leave that check pending; when it comes
  due it finds the insertion point and mounts the popover container, after the cleanup.
\<close>

theorem cleanup_leaves_readiness_timeout:
  "pending_timers (run [Initialize, Activate, Cleanup] (new_world chat_page)) =
     [\<lparr>t_handle = 2, t_kind = Timeout, t_delay = 100, t_callback = CheckReady 0\<rparr>]
   \<and> getElementById popover_id (dom (run [Initialize, Activate, Cleanup] (new_world chat_page)))
       = None
   \<and> getElementById popover_id
        (dom (run [Initialize, Activate, Cleanup, Fire 2] (new_world chat_page)))
       = Some [0, 1, 0, 0, 1]"
  by code_simp


end
